theory Spec2Isabelle
  imports Complex_Main
begin

section \<open>Constants of Simulator.py\<close>

text \<open>
  Python floats are idealised as the reals throughout: every arithmetic expression of
  the source is kept, in the source's order, over \<^typ>\<open>real\<close>. Python integers are
  \<^typ>\<open>int\<close>.
\<close>

definition SCREEN_WIDTH :: int where "SCREEN_WIDTH = 1000"
definition SCREEN_HEIGHT :: int where "SCREEN_HEIGHT = 600"
definition FPS :: int where "FPS = 60"
definition TIME_STEP :: real where "TIME_STEP = 1.0 / real_of_int FPS"

definition COLLISION_TYPE_PLAYER :: nat where "COLLISION_TYPE_PLAYER = 1"
definition COLLISION_TYPE_COIN :: nat where "COLLISION_TYPE_COIN = 2"
definition COLLISION_TYPE_BOUNCER :: nat where "COLLISION_TYPE_BOUNCER = 3"
definition COLLISION_TYPE_BOX :: nat where "COLLISION_TYPE_BOX = 4"
definition COLLISION_TYPE_BALL :: nat where "COLLISION_TYPE_BALL = 5"

type_synonym vec = "real \<times> real"

text \<open>The exceptions the modelled code paths can raise.\<close>

datatype error = ZeroDivisionError | AssertionError | ValueError | AttributeError

definition thenR :: "error + 'a \<Rightarrow> ('a \<Rightarrow> error + 'b) \<Rightarrow> error + 'b" where
  "thenR m f = (case m of Inl e \<Rightarrow> Inl e | Inr x \<Rightarrow> f x)"

text \<open>Python's \<open>int(x)\<close> on a float: truncation towards zero.\<close>

definition py_int :: "real \<Rightarrow> int" where
  "py_int x = (if 0 \<le> x then \<lfloor>x\<rfloor> else \<lceil>x\<rceil>)"

section \<open>class Camera\<close>

record camera =
  width :: int
  height :: int
  offset_x :: real
  offset_y :: real
  zoom :: real
  zoom_speed :: real
  min_zoom :: real
  max_zoom :: real
  pan_speed :: real

definition Camera :: "int \<Rightarrow> int \<Rightarrow> camera" where
  "Camera w h = \<lparr> width = w, height = h, offset_x = 0, offset_y = 0, zoom = 1.0,
     zoom_speed = 0.05, min_zoom = 0.2, max_zoom = 3.0, pan_speed = 15 \<rparr>"




text \<open>
  \<open>Camera.screen_to_world\<close>. The float division by \<open>self.zoom\<close> raises
  \<open>ZeroDivisionError\<close> when the zoom is zero.
\<close>

definition screen_to_world :: "camera \<Rightarrow> vec \<Rightarrow> error + vec" where
  "screen_to_world c screen_pos =
     (let world_x_no_zoom =
            fst screen_pos - real_of_int (width c) / 2 * (1 - zoom c) + offset_x c * zoom c;
          world_y_no_zoom =
            snd screen_pos - real_of_int (height c) / 2 * (1 - zoom c) + offset_y c * zoom c
      in if zoom c = 0 then Inl ZeroDivisionError
         else Inr (world_x_no_zoom / zoom c, world_y_no_zoom / zoom c))"

definition zoom_in :: "camera \<Rightarrow> camera" where
  "zoom_in c = c\<lparr>zoom := min (max_zoom c) (zoom c + zoom_speed c)\<rparr>"

definition zoom_out :: "camera \<Rightarrow> camera" where
  "zoom_out c = c\<lparr>zoom := max (min_zoom c) (zoom c - zoom_speed c)\<rparr>"

definition pan :: "real \<Rightarrow> real \<Rightarrow> camera \<Rightarrow> error + camera" where
  "pan dx dy c =
     (if zoom c = 0 then Inl ZeroDivisionError
      else Inr (c\<lparr>offset_x := offset_x c + dx / zoom c,
                  offset_y := offset_y c + dy / zoom c\<rparr>))"

text \<open>The screen position \<open>Camera.apply\<close> returns, read back as a pair of numbers.\<close>

definition as_screen_pos :: "int \<times> int \<Rightarrow> vec" where
  "as_screen_pos p = (real_of_int (fst p), real_of_int (snd p))"

section \<open>The pymunk objects the program holds\<close>

text \<open>
  Bodies, shapes, joints and entities are Python objects held by reference: they live in
  heaps indexed by reference, and the program's containers hold references. Only the
  attributes the program reads or writes are kept; mass, moment, friction and
  elasticity are consumed by the integrator alone.
\<close>

datatype body_type = DYNAMIC | KINEMATIC | STATIC

record body =
  position :: vec
  angle :: real
  body_type :: body_type

record shape =
  shape_body :: "nat option"
  collision_type :: nat
  parent_sprite :: "nat option"

record pivot_joint =
  joint_a :: nat
  joint_b :: nat
  anchor_a :: vec
  anchor_b :: vec
  max_force :: real
  error_bias :: real

record pm_space =
  bodies :: "nat set"
  shapes :: "nat set"
  constraints :: "nat set"
  gravity :: vec
  static_body :: nat

text \<open>
  \<open>Space.add\<close> and \<open>Space.remove\<close> of pymunk assert that the object is absent,
  respectively present.
\<close>

definition space_add_body :: "nat \<Rightarrow> pm_space \<Rightarrow> error + pm_space" where
  "space_add_body b sp =
     (if b \<in> bodies sp then Inl AssertionError else Inr (sp\<lparr>bodies := insert b (bodies sp)\<rparr>))"

definition space_add_shape :: "nat \<Rightarrow> pm_space \<Rightarrow> error + pm_space" where
  "space_add_shape sh sp =
     (if sh \<in> shapes sp then Inl AssertionError else Inr (sp\<lparr>shapes := insert sh (shapes sp)\<rparr>))"

definition space_add_constraint :: "nat \<Rightarrow> pm_space \<Rightarrow> error + pm_space" where
  "space_add_constraint j sp =
     (if j \<in> constraints sp then Inl AssertionError
      else Inr (sp\<lparr>constraints := insert j (constraints sp)\<rparr>))"

definition space_remove_body :: "nat \<Rightarrow> pm_space \<Rightarrow> error + pm_space" where
  "space_remove_body b sp =
     (if b \<in> bodies sp then Inr (sp\<lparr>bodies := bodies sp - {b}\<rparr>) else Inl AssertionError)"

definition space_remove_shape :: "nat \<Rightarrow> pm_space \<Rightarrow> error + pm_space" where
  "space_remove_shape sh sp =
     (if sh \<in> shapes sp then Inr (sp\<lparr>shapes := shapes sp - {sh}\<rparr>) else Inl AssertionError)"

definition space_remove_constraint :: "nat \<Rightarrow> pm_space \<Rightarrow> error + pm_space" where
  "space_remove_constraint j sp =
     (if j \<in> constraints sp then Inr (sp\<lparr>constraints := constraints sp - {j}\<rparr>)
      else Inl AssertionError)"

text \<open>Vec2d arithmetic; \<open>normalized\<close> of the zero vector is the zero vector.\<close>

definition vsub :: "vec \<Rightarrow> vec \<Rightarrow> vec" where
  "vsub a b = (fst a - fst b, snd a - snd b)"

definition vscale :: "vec \<Rightarrow> real \<Rightarrow> vec" where
  "vscale v k = (fst v * k, snd v * k)"

definition vlength :: "vec \<Rightarrow> real" where
  "vlength v = sqrt (fst v * fst v + snd v * snd v)"

definition normalized :: "vec \<Rightarrow> vec" where
  "normalized v =
     (let len = vlength v in if len \<noteq> 0 then (fst v / len, snd v / len) else (0, 0))"

text \<open>\<open>Body.world_to_local\<close>: the point in the body's frame (translate, then rotate back).\<close>

definition world_to_local :: "body \<Rightarrow> vec \<Rightarrow> vec" where
  "world_to_local b p =
     (let d = vsub p (position b)
      in (fst d * cos (angle b) + snd d * sin (angle b),
          snd d * cos (angle b) - fst d * sin (angle b)))"

section \<open>Entities and the application state\<close>

datatype entity_class = Entity | ControllableEntity | BoxEntity | BouncerEntity | CoinEntity

record entity =
  cls :: entity_class
  e_body :: nat
  e_shape :: nat
  e_collision_type :: nat
  marked_for_removal :: bool
  rect_center :: vec
  image_rotation :: real

text \<open>
  The calls the program makes on its collaborators (the physics step, forces and
  impulses on bodies, the per-entity update and draw, the frame buffer), in the order
  it makes them.
\<close>

datatype call =
    Step real
  | HandleKeyboardInput
  | ApplyForceAtLocalPoint nat vec vec
  | ApplyImpulseAtLocalPoint nat vec vec
  | Update nat
  | ClearSurface
  | Draw nat
  | UpdateCanvas

record app =
  camera :: camera
  space :: pm_space
  body_heap :: "nat \<Rightarrow> body"
  shape_heap :: "nat \<Rightarrow> shape"
  entity_heap :: "nat \<Rightarrow> entity"
  joint_heap :: "nat \<Rightarrow> pivot_joint"
  next_ref :: nat
  all_sprites :: "nat set"
  entities :: "nat list"
  controllable_object :: "nat option"
  selected_shape_drag :: "nat option"
  mouse_joint :: "nat option"
  mouse_body :: nat
  pressed_keys :: "string set"
  score :: int
  debug_draw_pymunk :: bool
  running :: bool
  trace :: "call list"

definition emit :: "call \<Rightarrow> app \<Rightarrow> app" where
  "emit c s = s\<lparr>trace := trace s @ [c]\<rparr>"

fun for_each :: "('a \<Rightarrow> 's \<Rightarrow> error + 's) \<Rightarrow> 'a list \<Rightarrow> 's \<Rightarrow> error + 's" where
  "for_each f [] s = Inr s"
| "for_each f (x # xs) s = thenR (f x s) (for_each f xs)"

subsection \<open>class Entity and its subclasses\<close>

text \<open>
  \<open>Entity.__init__\<close>: the entity, its body and its circle shape are three new
  objects; both branches of the final \<open>if\<close> add body and shape to the space.
\<close>

definition Entity_init ::
  "entity_class \<Rightarrow> vec \<Rightarrow> bool \<Rightarrow> nat \<Rightarrow> body_type \<Rightarrow> app \<Rightarrow> error + (nat \<times> app)" where
  "Entity_init k pos is_static ctype btype s =
     (let e = next_ref s; b = next_ref s + 1; sh = next_ref s + 2;
          bt = (if is_static then STATIC else btype);
          s1 = s\<lparr>next_ref := next_ref s + 3,
                 entity_heap := (entity_heap s)(e :=
                   \<lparr>cls = k, e_body = b, e_shape = sh, e_collision_type = ctype,
                    marked_for_removal = False, rect_center = pos, image_rotation = 0\<rparr>),
                 body_heap := (body_heap s)(b :=
                   \<lparr>position = pos, angle = 0, body_type = bt\<rparr>),
                 shape_heap := (shape_heap s)(sh :=
                   \<lparr>shape_body = Some b, collision_type = ctype, parent_sprite = Some e\<rparr>)\<rparr>
      in thenR (space_add_body b (space s1)) (\<lambda>sp1.
         thenR (space_add_shape sh sp1) (\<lambda>sp2.
         Inr (e, s1\<lparr>space := sp2\<rparr>))))"

definition kill_entity :: "nat \<Rightarrow> app \<Rightarrow> error + app" where
  "kill_entity e s =
     (let b = e_body (entity_heap s e); sh = e_shape (entity_heap s e) in
      thenR (if b \<in> bodies (space s) then space_remove_body b (space s) else Inr (space s))
        (\<lambda>sp1.
      thenR (if sh \<in> shapes sp1 then space_remove_shape sh sp1 else Inr sp1)
        (\<lambda>sp2.
      Inr (s\<lparr>space := sp2, all_sprites := all_sprites s - {e}\<rparr>))))"

definition Entity_update :: "nat \<Rightarrow> app \<Rightarrow> error + app" where
  "Entity_update e s =
     (let ent = entity_heap s e in
      if marked_for_removal ent then kill_entity e s
      else if body_type (body_heap s (e_body ent)) = DYNAMIC then
        Inr (s\<lparr>entity_heap := (entity_heap s)(e :=
               ent\<lparr>rect_center := position (body_heap s (e_body ent)),
                    image_rotation := - (angle (body_heap s (e_body ent)) * 180 / pi)\<rparr>)\<rparr>)
      else Inr s)"

text \<open>
  \<open>Entity.draw\<close>: nothing is drawn for a sprite that is not alive; otherwise the
  image is scaled, rotated and blitted (\<open>Draw\<close>).
\<close>

definition Entity_draw :: "nat \<Rightarrow> app \<Rightarrow> app" where
  "Entity_draw e s = (if e \<notin> all_sprites s then s else emit (Draw e) s)"

definition force_magnitude :: real where "force_magnitude = 20000"
definition bounce_force :: real where "bounce_force = 500000"
definition coin_value :: int where "coin_value = 10"

definition ControllableEntity_init :: "vec \<Rightarrow> app \<Rightarrow> error + (nat \<times> app)" where
  "ControllableEntity_init pos s =
     Entity_init ControllableEntity pos False COLLISION_TYPE_PLAYER DYNAMIC s"

definition apply_force :: "nat \<Rightarrow> vec \<Rightarrow> app \<Rightarrow> app" where
  "apply_force e direction_vector s =
     (let force_x = fst direction_vector * force_magnitude;
          force_y = snd direction_vector * force_magnitude
      in emit (ApplyForceAtLocalPoint (e_body (entity_heap s e)) (force_x, force_y) (0, 0)) s)"

text \<open>
  \<open>BoxEntity.__init__\<close> removes the default circle from the space and adds a new
  polygon shape, which becomes \<open>self.shape\<close>.
\<close>

definition BoxEntity_init :: "vec \<Rightarrow> bool \<Rightarrow> app \<Rightarrow> error + (nat \<times> app)" where
  "BoxEntity_init pos is_static s =
     thenR (Entity_init BoxEntity pos is_static COLLISION_TYPE_BOX DYNAMIC s) (\<lambda>(e, s1).
     thenR (space_remove_shape (e_shape (entity_heap s1 e)) (space s1)) (\<lambda>sp1.
       let sh = next_ref s1;
           s2 = s1\<lparr>next_ref := next_ref s1 + 1,
                  shape_heap := (shape_heap s1)(sh :=
                    \<lparr>shape_body = Some (e_body (entity_heap s1 e)),
                     collision_type = COLLISION_TYPE_BOX, parent_sprite = Some e\<rparr>),
                  entity_heap := (entity_heap s1)(e := (entity_heap s1 e)\<lparr>e_shape := sh\<rparr>)\<rparr>
       in thenR (space_add_shape sh sp1) (\<lambda>sp2. Inr (e, s2\<lparr>space := sp2\<rparr>))))"

definition BouncerEntity_init :: "vec \<Rightarrow> bool \<Rightarrow> app \<Rightarrow> error + (nat \<times> app)" where
  "BouncerEntity_init pos is_static s =
     Entity_init BouncerEntity pos is_static COLLISION_TYPE_BOUNCER DYNAMIC s"

text \<open>\<open>BouncerEntity.on_collision\<close>.\<close>

definition on_collision :: "nat \<Rightarrow> nat \<Rightarrow> app \<Rightarrow> error + app" where
  "on_collision e other_shape s =
     (case shape_body (shape_heap s other_shape) of
        None \<Rightarrow> Inl AttributeError
      | Some ob \<Rightarrow>
          if body_type (body_heap s ob) = DYNAMIC then
            let direction = normalized (vsub (position (body_heap s ob))
                                             (position (body_heap s (e_body (entity_heap s e)))))
            in Inr (emit (ApplyImpulseAtLocalPoint ob
                            (vscale (vscale direction bounce_force) TIME_STEP) (0, 0)) s)
          else Inr s)"

definition CoinEntity_init :: "vec \<Rightarrow> app \<Rightarrow> error + (nat \<times> app)" where
  "CoinEntity_init pos s = Entity_init CoinEntity pos False COLLISION_TYPE_COIN DYNAMIC s"

text \<open>\<open>CoinEntity.on_collected\<close>.\<close>

definition on_collected :: "nat \<Rightarrow> app \<Rightarrow> app" where
  "on_collected e s =
     s\<lparr>score := score s + coin_value,
       entity_heap := (entity_heap s)(e := (entity_heap s e)\<lparr>marked_for_removal := True\<rparr>)\<rparr>"

subsection \<open>class SimulationApp: construction\<close>

text \<open>
  \<open>_add_boundaries\<close>: four new segments on the space's built-in static body, with
  collision type 0 and no \<open>parent_sprite\<close> attribute, added in list order.
\<close>

definition add_boundaries :: "app \<Rightarrow> error + app" where
  "add_boundaries s =
     (let sb = static_body (space s); n = next_ref s;
          seg = \<lparr>shape_body = Some sb, collision_type = 0, parent_sprite = None\<rparr>;
          s1 = s\<lparr>next_ref := n + 4,
                 shape_heap := (shape_heap s)(n := seg, n + 1 := seg, n + 2 := seg, n + 3 := seg)\<rparr>
      in thenR (for_each space_add_shape [n, n + 1, n + 2, n + 3] (space s1))
           (\<lambda>sp. Inr (s1\<lparr>space := sp\<rparr>)))"

text \<open>
  The state \<open>__init__\<close> has built when it reaches \<open>_add_boundaries\<close>: reference 0 is
  \<open>space.static_body\<close>, nothing else is allocated.
\<close>

definition new_app :: app where
  "new_app =
     \<lparr>camera = Camera SCREEN_WIDTH SCREEN_HEIGHT,
      space = \<lparr>bodies = {}, shapes = {}, constraints = {}, gravity = (0, 900), static_body = 0\<rparr>,
      body_heap = (\<lambda>_. \<lparr>position = (0, 0), angle = 0, body_type = STATIC\<rparr>),
      shape_heap = (\<lambda>_. \<lparr>shape_body = None, collision_type = 0, parent_sprite = None\<rparr>),
      entity_heap = (\<lambda>_. \<lparr>cls = Entity, e_body = 0, e_shape = 0, e_collision_type = 0,
                            marked_for_removal = False, rect_center = (0, 0), image_rotation = 0\<rparr>),
      joint_heap = (\<lambda>_. \<lparr>joint_a = 0, joint_b = 0, anchor_a = (0, 0), anchor_b = (0, 0),
                           max_force = 0, error_bias = 0\<rparr>),
      next_ref = 1,
      all_sprites = {},
      entities = [],
      controllable_object = None,
      selected_shape_drag = None,
      mouse_joint = None,
      mouse_body = 0,
      pressed_keys = {},
      score = 0,
      debug_draw_pymunk = False,
      running = False,
      trace = []\<rparr>"

definition SimulationApp_init :: "error + app" where
  "SimulationApp_init =
     thenR (add_boundaries new_app) (\<lambda>s.
       Inr (s\<lparr>selected_shape_drag := None, mouse_joint := None,
               mouse_body := next_ref s,
               body_heap := (body_heap s)(next_ref s :=
                 \<lparr>position = (0, 0), angle = 0, body_type = KINEMATIC\<rparr>),
               next_ref := next_ref s + 1,
               pressed_keys := {},
               running := True\<rparr>))"

subsection \<open>Collision handlers\<close>

text \<open>
  The two \<open>begin\<close> callbacks of \<open>_setup_collision_handlers\<close>. Each takes
  \<open>arbiter.shapes\<close> and returns its verdict with the new state.
\<close>

definition player_collect_coin_begin :: "nat \<times> nat \<Rightarrow> app \<Rightarrow> error + (bool \<times> app)" where
  "player_collect_coin_begin arbiter_shapes s =
     (let player_shape = fst arbiter_shapes; coin_shape = snd arbiter_shapes in
      case parent_sprite (shape_heap s coin_shape) of
        Some e \<Rightarrow>
          if cls (entity_heap s e) = CoinEntity then Inr (True, on_collected e s)
          else Inr (True, s)
      | None \<Rightarrow> Inr (True, s))"

definition bouncer_interaction_begin :: "nat \<times> nat \<Rightarrow> app \<Rightarrow> error + (bool \<times> app)" where
  "bouncer_interaction_begin arbiter_shapes s =
     (let (bouncer_shape, other_shape) =
            (if collision_type (shape_heap s (fst arbiter_shapes)) \<noteq> COLLISION_TYPE_BOUNCER
             then (snd arbiter_shapes, fst arbiter_shapes)
             else (fst arbiter_shapes, snd arbiter_shapes))
      in case parent_sprite (shape_heap s bouncer_shape) of
           Some e \<Rightarrow>
             if cls (entity_heap s e) = BouncerEntity then
               thenR (on_collision e other_shape s) (\<lambda>s'. Inr (True, s'))
             else Inr (True, s)
         | None \<Rightarrow> Inr (True, s))"

subsection \<open>The physics step, as the program sees it\<close>

text \<open>
  \<open>Space.step\<close> is pymunk's. What one step does to the program's state is given by
  its outcome: the new pose of each body it moved, and the shape pairs that begin
  contact, in the order the space reports them. The step moves only DYNAMIC bodies of
  the space, then calls the registered \<open>begin\<close> callback of each new contact: the
  handler of the pair (PLAYER, COIN), with the shapes in the handler's order, or else
  the wildcard handler of BOUNCER for each shape of that type, that shape first.
\<close>

record step_outcome =
  poses :: "nat \<Rightarrow> (vec \<times> real) option"
  begins :: "(nat \<times> nat) list"

definition integrate :: "step_outcome \<Rightarrow> app \<Rightarrow> app" where
  "integrate out s =
     s\<lparr>body_heap := (\<lambda>b.
          if b \<in> bodies (space s) \<and> body_type (body_heap s b) = DYNAMIC then
            (case poses out b of
               Some (p, a) \<Rightarrow> (body_heap s b)\<lparr>position := p, angle := a\<rparr>
             | None \<Rightarrow> body_heap s b)
          else body_heap s b)\<rparr>"

definition collision_begin :: "nat \<times> nat \<Rightarrow> app \<Rightarrow> error + app" where
  "collision_begin arb s =
     (let ta = collision_type (shape_heap s (fst arb));
          tb = collision_type (shape_heap s (snd arb)) in
      if ta = COLLISION_TYPE_PLAYER \<and> tb = COLLISION_TYPE_COIN then
        thenR (player_collect_coin_begin arb s) (\<lambda>r. Inr (snd r))
      else if ta = COLLISION_TYPE_COIN \<and> tb = COLLISION_TYPE_PLAYER then
        thenR (player_collect_coin_begin (snd arb, fst arb) s) (\<lambda>r. Inr (snd r))
      else
        thenR (if ta = COLLISION_TYPE_BOUNCER
               then thenR (bouncer_interaction_begin arb s) (\<lambda>r. Inr (snd r))
               else Inr s) (\<lambda>s1.
        if tb = COLLISION_TYPE_BOUNCER
        then thenR (bouncer_interaction_begin (snd arb, fst arb) s1) (\<lambda>r. Inr (snd r))
        else Inr s1))"

definition space_step :: "real \<Rightarrow> step_outcome \<Rightarrow> app \<Rightarrow> error + app" where
  "space_step dt out s = for_each collision_begin (begins out) (integrate out (emit (Step dt) s))"

subsection \<open>Mouse and keyboard event handlers\<close>

text \<open>
  \<open>on_mouse_press\<close>. The space's \<open>point_query_nearest\<close> is pymunk's: it is the
  parameter \<open>point_query_nearest\<close>, called with the world position and the radius,
  answering \<open>None\<close> or a query result with its (optional) shape.
\<close>

definition on_mouse_press ::
  "(vec \<Rightarrow> real \<Rightarrow> nat option option) \<Rightarrow> int \<times> int \<Rightarrow> app \<Rightarrow> error + app" where
  "on_mouse_press point_query_nearest event s =
     (if \<not> running s then Inr s
      else
        thenR (screen_to_world (camera s) (as_screen_pos event)) (\<lambda>world_pos.
          case point_query_nearest world_pos 0 of
            Some (Some sh) \<Rightarrow>
              (case shape_body (shape_heap s sh) of
                 Some b \<Rightarrow>
                   if body_type (body_heap s b) = DYNAMIC then
                     let j = next_ref s;
                         pivot = \<lparr>joint_a = mouse_body s, joint_b = b, anchor_a = (0, 0),
                                  anchor_b = world_to_local (body_heap s b) world_pos,
                                  max_force = 700000 * zoom (camera s),
                                  error_bias = (1.0 - 0.15) ^ 60\<rparr>
                     in thenR (space_add_constraint j (space s)) (\<lambda>sp.
                          Inr (s\<lparr>selected_shape_drag := Some sh,
                                  joint_heap := (joint_heap s)(j := pivot),
                                  next_ref := j + 1,
                                  space := sp,
                                  mouse_joint := Some j\<rparr>))
                   else Inr s
               | None \<Rightarrow> Inr s)
          | _ \<Rightarrow> Inr s))"

definition on_mouse_release :: "app \<Rightarrow> error + app" where
  "on_mouse_release s =
     (if \<not> running s then Inr s
      else case mouse_joint s of
        None \<Rightarrow> Inr s
      | Some j \<Rightarrow>
          if j \<in> constraints (space s) then
            thenR (space_remove_constraint j (space s)) (\<lambda>sp.
              Inr (s\<lparr>space := sp, mouse_joint := None, selected_shape_drag := None\<rparr>))
          else Inr s)"

definition on_mouse_motion :: "int \<times> int \<Rightarrow> app \<Rightarrow> error + app" where
  "on_mouse_motion event s =
     (if \<not> running s then Inr s
      else
        thenR (screen_to_world (camera s) (as_screen_pos event)) (\<lambda>world_pos.
          Inr (s\<lparr>body_heap := (body_heap s)(mouse_body s :=
                  (body_heap s (mouse_body s))\<lparr>position := world_pos\<rparr>)\<rparr>)))"

definition on_mouse_wheel :: "int \<Rightarrow> int option \<Rightarrow> app \<Rightarrow> app" where
  "on_mouse_wheel delta direction s =
     (if \<not> running s then s
      else case direction of
        None \<Rightarrow> if delta > 0 then s\<lparr>camera := zoom_in (camera s)\<rparr>
                 else s\<lparr>camera := zoom_out (camera s)\<rparr>
      | Some d \<Rightarrow> if d > 0 then s\<lparr>camera := zoom_in (camera s)\<rparr>
                  else s\<lparr>camera := zoom_out (camera s)\<rparr>)"

text \<open>\<open>str.lower\<close> on the key names Tk delivers (ASCII).\<close>

definition lower_char :: "char \<Rightarrow> char" where
  "lower_char c =
     (if (65::nat) \<le> of_char c \<and> of_char c \<le> (90::nat) then char_of (of_char c + (32::nat)) else c)"

definition lower :: "string \<Rightarrow> string" where
  "lower k = map lower_char k"

definition on_key_press :: "string \<Rightarrow> app \<Rightarrow> app" where
  "on_key_press keysym s = s\<lparr>pressed_keys := insert (lower keysym) (pressed_keys s)\<rparr>"

text \<open>\<open>on_key_release\<close> catches the \<open>KeyError\<close> of removing an absent key.\<close>

definition on_key_release :: "string \<Rightarrow> app \<Rightarrow> app" where
  "on_key_release keysym s = s\<lparr>pressed_keys := pressed_keys s - {lower keysym}\<rparr>"

subsection \<open>Game functions\<close>

text \<open>\<open>list.remove\<close> raises \<open>ValueError\<close> when the element is absent.\<close>

definition list_remove :: "'a \<Rightarrow> 'a list \<Rightarrow> error + 'a list" where
  "list_remove x xs = (if x \<in> set xs then Inr (remove1 x xs) else Inl ValueError)"

definition view_centre :: vec where
  "view_centre = (real_of_int SCREEN_WIDTH / 2, real_of_int SCREEN_HEIGHT / 2)"

definition add_player_gui :: "app \<Rightarrow> error + app" where
  "add_player_gui s =
     thenR (screen_to_world (camera s) view_centre) (\<lambda>world_pos.
     thenR (case controllable_object s of
              Some c \<Rightarrow>
                if c \<in> all_sprites s then
                  thenR (kill_entity c s) (\<lambda>s1.
                  thenR (list_remove c (entities s1)) (\<lambda>es. Inr (s1\<lparr>entities := es\<rparr>)))
                else Inr s
            | None \<Rightarrow> Inr s) (\<lambda>s2.
     thenR (ControllableEntity_init world_pos s2) (\<lambda>(obj, s3).
       Inr (s3\<lparr>all_sprites := insert obj (all_sprites s3),
               entities := entities s3 @ [obj],
               controllable_object := Some obj\<rparr>))))"

definition add_object_at_pos :: "vec \<Rightarrow> string \<Rightarrow> app \<Rightarrow> error + app" where
  "add_object_at_pos world_pos entity_type_str s =
     (let register = (\<lambda>(obj, s1).
            Inr (s1\<lparr>all_sprites := insert obj (all_sprites s1),
                    entities := entities s1 @ [obj]\<rparr>)) in
      if entity_type_str = ''ball'' then
        thenR (Entity_init Entity world_pos False COLLISION_TYPE_BALL DYNAMIC s) register
      else if entity_type_str = ''box'' then
        thenR (BoxEntity_init world_pos False s) register
      else if entity_type_str = ''bouncer'' then
        thenR (BouncerEntity_init world_pos True s) register
      else if entity_type_str = ''coin'' then
        thenR (CoinEntity_init world_pos s) register
      else Inr s)"

definition add_object_at_mouse_center :: "string \<Rightarrow> app \<Rightarrow> error + app" where
  "add_object_at_mouse_center entity_type_str s =
     thenR (screen_to_world (camera s) view_centre) (\<lambda>world_pos.
       add_object_at_pos world_pos entity_type_str s)"

definition add_object_at_click :: "int \<times> int \<Rightarrow> string \<Rightarrow> app \<Rightarrow> error + app" where
  "add_object_at_click screen_pos entity_type_str s =
     thenR (screen_to_world (camera s) (as_screen_pos screen_pos)) (\<lambda>world_pos.
       add_object_at_pos world_pos entity_type_str s)"

definition on_right_click :: "int \<times> int \<Rightarrow> app \<Rightarrow> error + app" where
  "on_right_click event s =
     (if \<not> running s then Inr s else add_object_at_click event ''ball'' s)"

definition reset_simulation :: "app \<Rightarrow> error + app" where
  "reset_simulation s =
     thenR (for_each kill_entity (entities s) s) (\<lambda>s1.
       Inr (s1\<lparr>entities := [],
               controllable_object := None,
               score := 0,
               camera := (camera s1)\<lparr>offset_x := 0, offset_y := 0, zoom := 1.0\<rparr>\<rparr>))"

definition update_gravity_x :: "real \<Rightarrow> app \<Rightarrow> app" where
  "update_gravity_x v s = s\<lparr>space := (space s)\<lparr>gravity := (v, snd (gravity (space s)))\<rparr>\<rparr>"

definition update_gravity_y :: "real \<Rightarrow> app \<Rightarrow> app" where
  "update_gravity_y v s = s\<lparr>space := (space s)\<lparr>gravity := (fst (gravity (space s)), v)\<rparr>\<rparr>"

definition toggle_debug_draw :: "app \<Rightarrow> app" where
  "toggle_debug_draw s = s\<lparr>debug_draw_pymunk := \<not> debug_draw_pymunk s\<rparr>"

definition handle_keyboard_input :: "app \<Rightarrow> error + app" where
  "handle_keyboard_input s =
     (let keys = pressed_keys s; speed = pan_speed (camera s);
          dx0 = (0::real);
          dx1 = (if ''left'' \<in> keys then dx0 - speed else dx0);
          pan_dx = (if ''right'' \<in> keys then dx1 + speed else dx1);
          dy0 = (0::real);
          dy1 = (if ''up'' \<in> keys then dy0 - speed else dy0);
          pan_dy = (if ''down'' \<in> keys then dy1 + speed else dy1)
      in if pan_dx \<noteq> 0 \<or> pan_dy \<noteq> 0 then
           thenR (pan pan_dx pan_dy (camera s)) (\<lambda>c. Inr (s\<lparr>camera := c\<rparr>))
         else Inr s)"

subsection \<open>The simulation loop\<close>

text \<open>The block of \<open>update_simulation\<close> that moves the controllable object with WASD.\<close>

definition steer :: "app \<Rightarrow> app" where
  "steer s =
     (case controllable_object s of
        None \<Rightarrow> s
      | Some c \<Rightarrow>
          if c \<in> all_sprites s then
            let keys = pressed_keys s;
                y0 = (0::real);
                y1 = (if ''w'' \<in> keys then y0 - 1 else y0);
                y2 = (if ''s'' \<in> keys then y1 + 1 else y1);
                x0 = (0::real);
                x1 = (if ''a'' \<in> keys then x0 - 1 else x0);
                x2 = (if ''d'' \<in> keys then x1 + 1 else x1)
            in if x2 \<noteq> 0 \<or> y2 \<noteq> 0 then
                 let len = sqrt (x2 ^ 2 + y2 ^ 2)
                 in apply_force c (x2 / len, y2 / len) s
               else s
          else s)"

text \<open>One iteration of the loop over the copy of \<open>self.entities\<close>.\<close>

definition update_entity :: "nat \<Rightarrow> app \<Rightarrow> error + app" where
  "update_entity e s =
     thenR (Entity_update e (emit (Update e) s)) (\<lambda>s1.
       if marked_for_removal (entity_heap s1 e) \<and> e \<in> set (entities s1)
       then thenR (list_remove e (entities s1)) (\<lambda>es. Inr (s1\<lparr>entities := es\<rparr>))
       else Inr s1)"

text \<open>
  Clearing the surface, drawing every registered entity and handing the frame to the
  canvas. The grid, the HUD text, the labels and the clock do not touch the state.
\<close>

definition render :: "app \<Rightarrow> app" where
  "render s = emit UpdateCanvas (fold Entity_draw (entities s) (emit ClearSurface s))"

text \<open>
  \<open>update_simulation\<close>, one tick. The outcome of this tick's physics step is the
  argument \<open>out\<close>.
\<close>

definition update_simulation :: "step_outcome \<Rightarrow> app \<Rightarrow> error + app" where
  "update_simulation out s =
     (if \<not> running s then Inr s
      else
        thenR (space_step TIME_STEP out s) (\<lambda>s1.
        thenR (handle_keyboard_input (emit HandleKeyboardInput s1)) (\<lambda>s2.
        thenR (for_each update_entity (entities (steer s2)) (steer s2)) (\<lambda>s3.
        Inr (render s3)))))"

subsection \<open>The events the window delivers\<close>

text \<open>
  The callbacks \<open>__init__\<close> binds to the canvas, the buttons and the sliders, and the
  timer that runs \<open>update_simulation\<close>.
\<close>

datatype event =
    MousePress "vec \<Rightarrow> real \<Rightarrow> nat option option" "int \<times> int"
  | MouseRelease
  | RightClick "int \<times> int"
  | MouseMotion "int \<times> int"
  | MouseWheel int "int option"
  | KeyPress string
  | KeyRelease string
  | AddPlayerButton
  | AddObjectButton string
  | ResetButton
  | DebugDrawButton
  | GravityXSlider real
  | GravityYSlider real
  | Tick step_outcome

fun handle :: "event \<Rightarrow> app \<Rightarrow> error + app" where
  "handle (MousePress q p) s = on_mouse_press q p s"
| "handle MouseRelease s = on_mouse_release s"
| "handle (RightClick p) s = on_right_click p s"
| "handle (MouseMotion p) s = on_mouse_motion p s"
| "handle (MouseWheel d dir) s = Inr (on_mouse_wheel d dir s)"
| "handle (KeyPress k) s = Inr (on_key_press k s)"
| "handle (KeyRelease k) s = Inr (on_key_release k s)"
| "handle AddPlayerButton s = add_player_gui s"
| "handle (AddObjectButton t) s = add_object_at_mouse_center t s"
| "handle ResetButton s = reset_simulation s"
| "handle DebugDrawButton s = Inr (toggle_debug_draw s)"
| "handle (GravityXSlider v) s = Inr (update_gravity_x v s)"
| "handle (GravityYSlider v) s = Inr (update_gravity_y v s)"
| "handle (Tick out) s = update_simulation out s"

definition run :: "event list \<Rightarrow> error + app" where
  "run evs = thenR SimulationApp_init (for_each handle evs)"

section \<open>Well-formed states\<close>

text \<open>
  The states the application is in between two events. After \<open>__init__\<close> reference 0
  is the space's static body, 1 to 4 are the boundary segments and 5 is the mouse body;
  every later object has a larger reference.
\<close>

definition boundary_shapes :: "nat set" where
  "boundary_shapes = {1, 2, 3, 4}"

text \<open>The collision type each class passes to \<open>Entity.__init__\<close>.\<close>

fun type_of_class :: "entity_class \<Rightarrow> nat" where
  "type_of_class Entity = COLLISION_TYPE_BALL"
| "type_of_class ControllableEntity = COLLISION_TYPE_PLAYER"
| "type_of_class BoxEntity = COLLISION_TYPE_BOX"
| "type_of_class BouncerEntity = COLLISION_TYPE_BOUNCER"
| "type_of_class CoinEntity = COLLISION_TYPE_COIN"

definition cam_ok :: "camera \<Rightarrow> bool" where
  "cam_ok c \<longleftrightarrow> min_zoom c = 0.2 \<and> max_zoom c = 3.0 \<and> zoom_speed c = 0.05
     \<and> 0.2 \<le> zoom c \<and> zoom c \<le> 3.0"

text \<open>
  A registered entity: allocated, with its own body and shape, its shape tagged with
  its class's collision type and pointing back to it. Only a coin is ever marked.
\<close>

definition entity_ok :: "app \<Rightarrow> nat \<Rightarrow> bool" where
  "entity_ok s e \<longleftrightarrow>
     (let ent = entity_heap s e in
      e < next_ref s \<and> 5 < e_body ent \<and> e_body ent < next_ref s
      \<and> 5 < e_shape ent \<and> e_shape ent < next_ref s
      \<and> e_collision_type ent = type_of_class (cls ent)
      \<and> (marked_for_removal ent \<longrightarrow> cls ent = CoinEntity)
      \<and> shape_heap s (e_shape ent) =
           \<lparr>shape_body = Some (e_body ent), collision_type = e_collision_type ent,
            parent_sprite = Some e\<rparr>)"

text \<open>The invariant that also holds in the middle of a tick.\<close>

definition wf_mid :: "app \<Rightarrow> bool" where
  "wf_mid s \<longleftrightarrow>
     running s \<and> cam_ok (camera s) \<and> 5 < next_ref s
     \<and> distinct (entities s) \<and> all_sprites s = set (entities s)
     \<and> (\<forall>e\<in>set (entities s). entity_ok s e)
     \<and> inj_on (\<lambda>e. e_body (entity_heap s e)) (set (entities s))
     \<and> bodies (space s) = (\<lambda>e. e_body (entity_heap s e)) ` set (entities s)
     \<and> shapes (space s) = boundary_shapes \<union> (\<lambda>e. e_shape (entity_heap s e)) ` set (entities s)
     \<and> (\<forall>sh\<in>boundary_shapes. shape_heap s sh =
           \<lparr>shape_body = Some 0, collision_type = 0, parent_sprite = None\<rparr>)
     \<and> (\<forall>j\<in>constraints (space s). j < next_ref s)
     \<and> (\<forall>c. controllable_object s = Some c \<longrightarrow>
           c \<in> set (entities s) \<and> cls (entity_heap s c) = ControllableEntity)
     \<and> static_body (space s) = 0"

text \<open>Between ticks no registered entity is marked for removal.\<close>

definition wf_state :: "app \<Rightarrow> bool" where
  "wf_state s \<longleftrightarrow> wf_mid s \<and> (\<forall>e\<in>set (entities s). \<not> marked_for_removal (entity_heap s e))"

text \<open>
  What the environment may deliver: a physics step reports contacts between shapes of
  the space only. Every other event is unconstrained.
\<close>

fun deliverable :: "app \<Rightarrow> event \<Rightarrow> bool" where
  "deliverable s (Tick out) =
     list_all (\<lambda>arb. fst arb \<in> shapes (space s) \<and> snd arb \<in> shapes (space s)) (begins out)"
| "deliverable s _ = True"

inductive reachable :: "app \<Rightarrow> bool" where
  init: "SimulationApp_init = Inr s \<Longrightarrow> reachable s"
| step: "reachable s \<Longrightarrow> deliverable s ev \<Longrightarrow> handle ev s = Inr s' \<Longrightarrow> reachable s'"

text \<open>The events that spawn an entity.\<close>

fun is_spawn :: "event \<Rightarrow> bool" where
  "is_spawn AddPlayerButton = True"
| "is_spawn (AddObjectButton t) = True"
| "is_spawn (RightClick p) = True"
| "is_spawn _ = False"

text \<open>
  The coin a begin-contact collects: the \<open>CoinEntity\<close> behind the COIN shape of a
  PLAYER-COIN pair.
\<close>

definition coin_sprite :: "app \<Rightarrow> nat \<Rightarrow> nat option" where
  "coin_sprite s sh =
     (case parent_sprite (shape_heap s sh) of
        Some e \<Rightarrow> if cls (entity_heap s e) = CoinEntity then Some e else None
      | None \<Rightarrow> None)"

definition collected_by :: "app \<Rightarrow> nat \<times> nat \<Rightarrow> nat option" where
  "collected_by s arb =
     (let ta = collision_type (shape_heap s (fst arb));
          tb = collision_type (shape_heap s (snd arb)) in
      if ta = COLLISION_TYPE_PLAYER \<and> tb = COLLISION_TYPE_COIN then coin_sprite s (snd arb)
      else if ta = COLLISION_TYPE_COIN \<and> tb = COLLISION_TYPE_PLAYER then coin_sprite s (fst arb)
      else None)"

definition collected :: "app \<Rightarrow> (nat \<times> nat) list \<Rightarrow> nat list" where
  "collected s bs = List.map_filter (collected_by s) bs"

definition mark_all :: "nat set \<Rightarrow> (nat \<Rightarrow> entity) \<Rightarrow> nat \<Rightarrow> entity" where
  "mark_all M h = (\<lambda>e. if e \<in> M then (h e)\<lparr>marked_for_removal := True\<rparr> else h e)"

fun is_impulse :: "call \<Rightarrow> bool" where
  "is_impulse (ApplyImpulseAtLocalPoint b j p) = True"
| "is_impulse _ = False"

text \<open>Detaching a set of registered entities: their bodies and shapes leave the space, they leave the sprite group and the registry.\<close>

definition detach_all :: "nat set \<Rightarrow> app \<Rightarrow> app" where
  "detach_all M s =
     s\<lparr>space := (space s)\<lparr>
          bodies := bodies (space s) - (\<lambda>e. e_body (entity_heap s e)) ` M,
          shapes := shapes (space s) - (\<lambda>e. e_shape (entity_heap s e)) ` M\<rparr>,
       all_sprites := all_sprites s - M,
       entities := filter (\<lambda>e. e \<notin> M) (entities s)\<rparr>"

text \<open>
  The state after a new entity of class \<open>k\<close> has been constructed at \<open>pos\<close> and
  registered: entity, body and circle take the next three references; a box takes a
  fourth for the polygon that replaces its circle.
\<close>

definition spawned :: "entity_class \<Rightarrow> vec \<Rightarrow> body_type \<Rightarrow> app \<Rightarrow> app" where
  "spawned k pos bt s =
     (let n = next_ref s;
          sh = (if k = BoxEntity then n + 3 else n + 2);
          shp = \<lparr>shape_body = Some (n + 1), collision_type = type_of_class k,
                 parent_sprite = Some n\<rparr> in
      s\<lparr>next_ref := sh + 1,
        entity_heap := (entity_heap s)(n :=
          \<lparr>cls = k, e_body = n + 1, e_shape = sh, e_collision_type = type_of_class k,
           marked_for_removal = False, rect_center = pos, image_rotation = 0\<rparr>),
        body_heap := (body_heap s)(n + 1 := \<lparr>position = pos, angle = 0, body_type = bt\<rparr>),
        shape_heap := (shape_heap s)(n + 2 := shp, sh := shp),
        space := (space s)\<lparr>bodies := insert (n + 1) (bodies (space s)),
                           shapes := insert sh (shapes (space s))\<rparr>,
        all_sprites := insert n (all_sprites s),
        entities := entities s @ [n]\<rparr>)"

text \<open>
  The state after the begin-contacts of a step have been handled: the coins \<open>es\<close>
  collected and the calls \<open>H\<close> made.
\<close>

definition after_contacts :: "app \<Rightarrow> nat list \<Rightarrow> call list \<Rightarrow> app" where
  "after_contacts t es H =
     t\<lparr>score := score t + coin_value * int (length es),
       entity_heap := mark_all (set es) (entity_heap t),
       trace := trace t @ H\<rparr>"

definition has_body :: "app \<Rightarrow> nat \<Rightarrow> bool" where
  "has_body s sh \<longleftrightarrow> shape_body (shape_heap s sh) \<noteq> None"

text \<open>
  The state after the update loop has run over the entities \<open>xs\<close>: the marked ones
  detached, the unmarked DYNAMIC ones resynchronised with their bodies.
\<close>

definition sync :: "app \<Rightarrow> nat \<Rightarrow> entity" where
  "sync t e =
     (entity_heap t e)\<lparr>rect_center := position (body_heap t (e_body (entity_heap t e))),
                       image_rotation := - (angle (body_heap t (e_body (entity_heap t e))) * 180 / pi)\<rparr>"

definition sync_heap :: "nat list \<Rightarrow> app \<Rightarrow> nat \<Rightarrow> entity" where
  "sync_heap xs t =
     (\<lambda>e. if e \<in> set xs \<and> \<not> marked_for_removal (entity_heap t e)
              \<and> body_type (body_heap t (e_body (entity_heap t e))) = DYNAMIC
           then sync t e else entity_heap t e)"

definition swept :: "nat list \<Rightarrow> app \<Rightarrow> app" where
  "swept xs t =
     (detach_all {e \<in> set xs. marked_for_removal (entity_heap t e)} t)
       \<lparr>entity_heap := sync_heap xs t, trace := trace t @ map Update xs\<rparr>"

text \<open>
  The state after one tick, given the calls \<open>H\<close> of the begin-contact callbacks, the
  camera \<open>c\<close> after panning and the steering calls \<open>F\<close>.
\<close>

definition ticked :: "app \<Rightarrow> step_outcome \<Rightarrow> call list \<Rightarrow> camera \<Rightarrow> call list \<Rightarrow> app" where
  "ticked s out H c F =
     render (swept (entities s)
       ((after_contacts (integrate out s) (collected s (begins out))
           (Step TIME_STEP # H @ HandleKeyboardInput # F))\<lparr>camera := c\<rparr>))"

text \<open>The timer event, the only one the environment constrains.\<close>

fun is_tick :: "event \<Rightarrow> bool" where
  "is_tick (Tick out) = True"
| "is_tick _ = False"

text \<open>The calls the steering block of a tick makes in state \<open>s\<close>.\<close>

definition steering_calls :: "app \<Rightarrow> call list" where
  "steering_calls s = trace (steer (s\<lparr>trace := []\<rparr>))"

text \<open>A begin-contact between a PLAYER shape and a COIN shape, in either order.\<close>

definition player_coin_pair :: "app \<Rightarrow> nat \<times> nat \<Rightarrow> bool" where
  "player_coin_pair s arb \<longleftrightarrow>
     (collision_type (shape_heap s (fst arb)) = COLLISION_TYPE_PLAYER
        \<and> collision_type (shape_heap s (snd arb)) = COLLISION_TYPE_COIN)
     \<or> (collision_type (shape_heap s (fst arb)) = COLLISION_TYPE_COIN
        \<and> collision_type (shape_heap s (snd arb)) = COLLISION_TYPE_PLAYER)"

text \<open>
  The words of the specification for the held keys: an axis reads +1 when its positive
  key is held, -1 when its negative key is held, and 0 when both or neither are.
\<close>

definition key_axis :: "string set \<Rightarrow> string \<Rightarrow> string \<Rightarrow> real" where
  "key_axis keys neg pos = (if pos \<in> keys then 1 else 0) - (if neg \<in> keys then 1 else 0)"

text \<open>The steering direction of the keys a, d (x) and w, s (y), before normalisation.\<close>

definition steering_direction :: "string set \<Rightarrow> vec" where
  "steering_direction keys = (key_axis keys ''a'' ''d'', key_axis keys ''w'' ''s'')"

text \<open>
  The camera after the pan the arrow keys ask for: \<open>pan_speed\<close> along each axis,
  divided by the zoom; unchanged when the keys give no pan.
\<close>

definition panned_camera :: "string set \<Rightarrow> camera \<Rightarrow> camera" where
  "panned_camera keys c =
     (let dx = pan_speed c * key_axis keys ''left'' ''right'';
          dy = pan_speed c * key_axis keys ''up'' ''down''
      in if dx \<noteq> 0 \<or> dy \<noteq> 0
         then c\<lparr>offset_x := offset_x c + dx / zoom c, offset_y := offset_y c + dy / zoom c\<rparr>
         else c)"

text \<open>
  \<open>Body.apply_impulse_at_local_point\<close> and \<open>Body.apply_force_at_local_point\<close> are
  pymunk's: both arguments are in the body's local coordinates. The vector that acts on
  the body, in world coordinates, is the argument turned by the body's angle.
\<close>

definition local_to_world_vect :: "body \<Rightarrow> vec \<Rightarrow> vec" where
  "local_to_world_vect b v =
     (fst v * cos (angle b) - snd v * sin (angle b),
      fst v * sin (angle b) + snd v * cos (angle b))"

section \<open>The camera formula as the specification words it\<close>


section \<open>Camera: truncation and the round trip\<close>

lemma thenR_simps [simp]:
  "thenR (Inl e) f = Inl e"
  "thenR (Inr x) f = f x"
  by (simp_all add: thenR_def)


lemma py_int_of_int [simp]: "py_int (real_of_int n) = n"
  by (simp add: py_int_def)










section \<open>Removal and reset\<close>

lemmas space_ops = space_add_body_def space_add_shape_def space_add_constraint_def
  space_remove_body_def space_remove_shape_def space_remove_constraint_def

lemma kill_entity_eq:
  "kill_entity e s =
     Inr (s\<lparr>space := (space s)\<lparr>bodies := bodies (space s) - {e_body (entity_heap s e)},
                              shapes := shapes (space s) - {e_shape (entity_heap s e)}\<rparr>,
            all_sprites := all_sprites s - {e}\<rparr>)"
  by (simp add: kill_entity_def Let_def space_remove_body_def space_remove_shape_def)

lemma for_each_kill_entity:
  "for_each kill_entity es s =
     Inr (s\<lparr>space := (space s)\<lparr>
               bodies := bodies (space s) - (\<lambda>e. e_body (entity_heap s e)) ` set es,
               shapes := shapes (space s) - (\<lambda>e. e_shape (entity_heap s e)) ` set es\<rparr>,
            all_sprites := all_sprites s - set es\<rparr>)"
proof (induction es arbitrary: s)
  case Nil
  show ?case by simp
next
  case (Cons x xs)
  have a: "bodies (space s) - {e_body (entity_heap s x)} - (\<lambda>e. e_body (entity_heap s e)) ` set xs
      = bodies (space s) - (\<lambda>e. e_body (entity_heap s e)) ` set (x # xs)" by auto
  have b: "shapes (space s) - {e_shape (entity_heap s x)} - (\<lambda>e. e_shape (entity_heap s e)) ` set xs
      = shapes (space s) - (\<lambda>e. e_shape (entity_heap s e)) ` set (x # xs)" by auto
  have c: "all_sprites s - {x} - set xs = all_sprites s - set (x # xs)" by auto
  define s1 where "s1 = s\<lparr>space := (space s)\<lparr>bodies := bodies (space s) - {e_body (entity_heap s x)},
                              shapes := shapes (space s) - {e_shape (entity_heap s x)}\<rparr>,
            all_sprites := all_sprites s - {x}\<rparr>"
  have k: "kill_entity x s = Inr s1" by (simp add: kill_entity_eq s1_def)
  have "for_each kill_entity (x # xs) s = for_each kill_entity xs s1"
    by (simp only: for_each.simps k thenR_simps)
  also have "\<dots> = Inr (s1\<lparr>space := (space s1)\<lparr>
               bodies := bodies (space s1) - (\<lambda>e. e_body (entity_heap s1 e)) ` set xs,
               shapes := shapes (space s1) - (\<lambda>e. e_shape (entity_heap s1 e)) ` set xs\<rparr>,
            all_sprites := all_sprites s1 - set xs\<rparr>)"
    by (rule Cons.IH)
  also have "\<dots> = Inr (s\<lparr>space := (space s)\<lparr>
               bodies := bodies (space s) - (\<lambda>e. e_body (entity_heap s e)) ` set (x # xs),
               shapes := shapes (space s) - (\<lambda>e. e_shape (entity_heap s e)) ` set (x # xs)\<rparr>,
            all_sprites := all_sprites s - set (x # xs)\<rparr>)"
    by (simp add: s1_def a b c del: set_simps)
  finally show ?case .
qed

lemma reset_simulation_eq:
  "reset_simulation s =
     Inr (s\<lparr>space := (space s)\<lparr>
               bodies := bodies (space s) - (\<lambda>e. e_body (entity_heap s e)) ` set (entities s),
               shapes := shapes (space s) - (\<lambda>e. e_shape (entity_heap s e)) ` set (entities s)\<rparr>,
            all_sprites := all_sprites s - set (entities s),
            entities := [],
            controllable_object := None,
            score := 0,
            camera := (camera s)\<lparr>offset_x := 0, offset_y := 0, zoom := 1.0\<rparr>\<rparr>)"
  by (simp add: reset_simulation_def for_each_kill_entity)

lemma wf_midI:
  assumes "running s" "cam_ok (camera s)" "5 < next_ref s" "distinct (entities s)"
    "all_sprites s = set (entities s)" "\<And>e. e \<in> set (entities s) \<Longrightarrow> entity_ok s e"
    "inj_on (\<lambda>e. e_body (entity_heap s e)) (set (entities s))"
    "bodies (space s) = (\<lambda>e. e_body (entity_heap s e)) ` set (entities s)"
    "shapes (space s) = boundary_shapes \<union> (\<lambda>e. e_shape (entity_heap s e)) ` set (entities s)"
    "\<And>sh. sh \<in> boundary_shapes \<Longrightarrow> shape_heap s sh =
           \<lparr>shape_body = Some 0, collision_type = 0, parent_sprite = None\<rparr>"
    "\<And>j. j \<in> constraints (space s) \<Longrightarrow> j < next_ref s"
    "\<And>c. controllable_object s = Some c \<Longrightarrow>
           c \<in> set (entities s) \<and> cls (entity_heap s c) = ControllableEntity"
    "static_body (space s) = 0"
  shows "wf_mid s"
  unfolding wf_mid_def using assms by blast

lemma wf_mid_running: "wf_mid s \<Longrightarrow> running s"
  and wf_mid_cam: "wf_mid s \<Longrightarrow> cam_ok (camera s)"
  and wf_mid_next: "wf_mid s \<Longrightarrow> 5 < next_ref s"
  and wf_mid_distinct: "wf_mid s \<Longrightarrow> distinct (entities s)"
  and wf_mid_sprites: "wf_mid s \<Longrightarrow> all_sprites s = set (entities s)"
  and wf_mid_entity: "wf_mid s \<Longrightarrow> e \<in> set (entities s) \<Longrightarrow> entity_ok s e"
  and wf_mid_inj: "wf_mid s \<Longrightarrow> inj_on (\<lambda>e. e_body (entity_heap s e)) (set (entities s))"
  and wf_mid_bodies: "wf_mid s \<Longrightarrow> bodies (space s) = (\<lambda>e. e_body (entity_heap s e)) ` set (entities s)"
  and wf_mid_shapes: "wf_mid s \<Longrightarrow>
        shapes (space s) = boundary_shapes \<union> (\<lambda>e. e_shape (entity_heap s e)) ` set (entities s)"
  and wf_mid_boundary: "wf_mid s \<Longrightarrow> sh \<in> boundary_shapes \<Longrightarrow> shape_heap s sh =
           \<lparr>shape_body = Some 0, collision_type = 0, parent_sprite = None\<rparr>"
  and wf_mid_constraints: "wf_mid s \<Longrightarrow> j \<in> constraints (space s) \<Longrightarrow> j < next_ref s"
  and wf_mid_controllable: "wf_mid s \<Longrightarrow> controllable_object s = Some c \<Longrightarrow>
           c \<in> set (entities s) \<and> cls (entity_heap s c) = ControllableEntity"
  and wf_mid_static: "wf_mid s \<Longrightarrow> static_body (space s) = 0"
  unfolding wf_mid_def by blast+

lemma wf_wf_mid: "wf_state s \<Longrightarrow> wf_mid s"
  and wf_unmarked: "wf_state s \<Longrightarrow> e \<in> set (entities s) \<Longrightarrow> \<not> marked_for_removal (entity_heap s e)"
  unfolding wf_state_def by blast+

lemma entity_shape_not_boundary:
  "entity_ok s e \<Longrightarrow> e_shape (entity_heap s e) \<notin> boundary_shapes"
  by (auto simp: entity_ok_def Let_def boundary_shapes_def)

lemma wf_reset:
  assumes "wf_state s"
  shows "\<exists>s'. reset_simulation s = Inr s' \<and> wf_state s' \<and> entities s' = [] \<and> score s' = 0
     \<and> offset_x (camera s') = 0 \<and> offset_y (camera s') = 0 \<and> zoom (camera s') = 1.0
     \<and> bodies (space s') = {} \<and> shapes (space s') = boundary_shapes
     \<and> gravity (space s') = gravity (space s) \<and> constraints (space s') = constraints (space s)"
proof -
  note m = wf_wf_mid [OF assms]
  define s' where "s' = s\<lparr>space := (space s)\<lparr>
               bodies := bodies (space s) - (\<lambda>e. e_body (entity_heap s e)) ` set (entities s),
               shapes := shapes (space s) - (\<lambda>e. e_shape (entity_heap s e)) ` set (entities s)\<rparr>,
            all_sprites := all_sprites s - set (entities s),
            entities := [],
            controllable_object := None,
            score := 0,
            camera := (camera s)\<lparr>offset_x := 0, offset_y := 0, zoom := 1.0\<rparr>\<rparr>"
  have r: "reset_simulation s = Inr s'" by (simp add: reset_simulation_eq s'_def)
  have d: "boundary_shapes \<inter> (\<lambda>e. e_shape (entity_heap s e)) ` set (entities s) = {}"
    using wf_mid_entity [OF m] entity_shape_not_boundary by blast
  have sh: "shapes (space s') = boundary_shapes"
    using d by (auto simp: s'_def wf_mid_shapes [OF m])
  have bo: "bodies (space s') = {}"
    by (simp add: s'_def wf_mid_bodies [OF m])
  have sp: "all_sprites s' = {}"
    by (simp add: s'_def wf_mid_sprites [OF m])
  have es: "entities s' = []" by (simp add: s'_def)
  have cam: "cam_ok (camera s')"
    using wf_mid_cam [OF m] by (simp add: s'_def cam_ok_def)
  have "wf_mid s'"
  proof (rule wf_midI)
    show "running s'" using wf_mid_running [OF m] by (simp add: s'_def)
    show "cam_ok (camera s')" by (rule cam)
    show "5 < next_ref s'" using wf_mid_next [OF m] by (simp add: s'_def)
    show "\<And>sh. sh \<in> boundary_shapes \<Longrightarrow> shape_heap s' sh =
           \<lparr>shape_body = Some 0, collision_type = 0, parent_sprite = None\<rparr>"
      using wf_mid_boundary [OF m] by (simp add: s'_def)
    show "\<And>j. j \<in> constraints (space s') \<Longrightarrow> j < next_ref s'"
      using wf_mid_constraints [OF m] by (simp add: s'_def)
    show "\<And>c. controllable_object s' = Some c \<Longrightarrow>
           c \<in> set (entities s') \<and> cls (entity_heap s' c) = ControllableEntity"
      by (simp add: s'_def)
    show "static_body (space s') = 0" using wf_mid_static [OF m] by (simp add: s'_def)
  qed (simp_all add: es sh bo sp)
  then have w: "wf_state s'" by (simp add: wf_state_def es)
  have rest: "score s' = 0 \<and> offset_x (camera s') = 0 \<and> offset_y (camera s') = 0
     \<and> zoom (camera s') = 1.0 \<and> gravity (space s') = gravity (space s)
     \<and> constraints (space s') = constraints (space s)"
    by (simp add: s'_def)
  show ?thesis using r w es sh bo rest by blast
qed


lemma entity_ok_cong:
  assumes "entity_heap s' e = entity_heap s e"
    and "shape_heap s' (e_shape (entity_heap s e)) = shape_heap s (e_shape (entity_heap s e))"
    and "next_ref s' = next_ref s"
  shows "entity_ok s' e = entity_ok s e"
  using assms by (simp add: entity_ok_def Let_def)

lemma entity_ok_parent:
  "entity_ok s e \<Longrightarrow> parent_sprite (shape_heap s (e_shape (entity_heap s e))) = Some e"
  by (simp add: entity_ok_def Let_def)

lemma wf_mid_inj_shape:
  assumes "wf_mid s"
  shows "inj_on (\<lambda>e. e_shape (entity_heap s e)) (set (entities s))"
proof (rule inj_onI)
  fix x y
  assume x: "x \<in> set (entities s)" and y: "y \<in> set (entities s)"
    and eq: "e_shape (entity_heap s x) = e_shape (entity_heap s y)"
  have "Some x = parent_sprite (shape_heap s (e_shape (entity_heap s x)))"
    using entity_ok_parent [OF wf_mid_entity [OF assms x]] by simp
  also have "\<dots> = Some y"
    unfolding eq using entity_ok_parent [OF wf_mid_entity [OF assms y]] by simp
  finally show "x = y" by simp
qed

lemma wf_mid_detach_all:
  assumes m: "wf_mid s" and sub: "M \<subseteq> set (entities s)"
    and ctl: "\<And>c. controllable_object s = Some c \<Longrightarrow> c \<notin> M"
  shows "wf_mid (detach_all M s)"
proof (rule wf_midI)
  let ?s = "detach_all M s"
  have es: "set (entities ?s) = set (entities s) - M" by (auto simp: detach_all_def)
  show "running ?s" using wf_mid_running [OF m] by (simp add: detach_all_def)
  show "cam_ok (camera ?s)" using wf_mid_cam [OF m] by (simp add: detach_all_def)
  show "5 < next_ref ?s" using wf_mid_next [OF m] by (simp add: detach_all_def)
  show "distinct (entities ?s)" using wf_mid_distinct [OF m] by (simp add: detach_all_def)
  show "all_sprites ?s = set (entities ?s)"
    unfolding es using wf_mid_sprites [OF m] by (simp add: detach_all_def)
  show "entity_ok ?s e" if "e \<in> set (entities ?s)" for e
  proof -
    have "e \<in> set (entities s)" using that es by simp
    then have "entity_ok s e" by (rule wf_mid_entity [OF m])
    moreover have "entity_ok ?s e = entity_ok s e"
      by (rule entity_ok_cong) (simp_all add: detach_all_def)
    ultimately show ?thesis by simp
  qed
  have h: "entity_heap ?s = entity_heap s" by (simp add: detach_all_def)
  show "inj_on (\<lambda>e. e_body (entity_heap ?s e)) (set (entities ?s))"
    unfolding h es using wf_mid_inj [OF m] by (rule inj_on_subset) blast
  have "(\<lambda>e. e_body (entity_heap s e)) ` (set (entities s) - M)
      = (\<lambda>e. e_body (entity_heap s e)) ` set (entities s) - (\<lambda>e. e_body (entity_heap s e)) ` M"
    using wf_mid_inj [OF m] sub by (intro inj_on_image_set_diff [where C = "set (entities s)"]) auto
  then show "bodies (space ?s) = (\<lambda>e. e_body (entity_heap ?s e)) ` set (entities ?s)"
    unfolding h es by (simp add: detach_all_def wf_mid_bodies [OF m])
  have i: "(\<lambda>e. e_shape (entity_heap s e)) ` (set (entities s) - M)
      = (\<lambda>e. e_shape (entity_heap s e)) ` set (entities s) - (\<lambda>e. e_shape (entity_heap s e)) ` M"
    using wf_mid_inj_shape [OF m] sub
    by (intro inj_on_image_set_diff [where C = "set (entities s)"]) auto
  have d: "boundary_shapes \<inter> (\<lambda>e. e_shape (entity_heap s e)) ` M = {}"
    using wf_mid_entity [OF m] entity_shape_not_boundary sub by blast
  show "shapes (space ?s) = boundary_shapes \<union> (\<lambda>e. e_shape (entity_heap ?s e)) ` set (entities ?s)"
    unfolding h es i using d by (auto simp: detach_all_def wf_mid_shapes [OF m])
  show "shape_heap ?s sh = \<lparr>shape_body = Some 0, collision_type = 0, parent_sprite = None\<rparr>"
    if "sh \<in> boundary_shapes" for sh
    using wf_mid_boundary [OF m that] by (simp add: detach_all_def)
  show "j < next_ref ?s" if "j \<in> constraints (space ?s)" for j
    using wf_mid_constraints [OF m, of j] that by (simp add: detach_all_def)
  show "c \<in> set (entities ?s) \<and> cls (entity_heap ?s c) = ControllableEntity"
    if "controllable_object ?s = Some c" for c
  proof -
    have c: "controllable_object s = Some c" using that by (simp add: detach_all_def)
    show ?thesis
      unfolding h es using wf_mid_controllable [OF m c] ctl [OF c] by simp
  qed
  show "static_body (space ?s) = 0" using wf_mid_static [OF m] by (simp add: detach_all_def)
qed

section \<open>Spawning\<close>

lemma entity_ok_bounds:
  "entity_ok s e \<Longrightarrow>
     e < next_ref s \<and> e_body (entity_heap s e) < next_ref s \<and> e_shape (entity_heap s e) < next_ref s"
  by (simp add: entity_ok_def Let_def)

lemma wf_mid_fresh_body:
  assumes "wf_mid s" and "b \<in> bodies (space s)"
  shows "b < next_ref s"
proof -
  obtain e where "e \<in> set (entities s)" and "b = e_body (entity_heap s e)"
    using assms by (auto simp: wf_mid_bodies)
  then show ?thesis using entity_ok_bounds [OF wf_mid_entity [OF assms(1)]] by simp
qed

lemma wf_mid_fresh_shape:
  assumes "wf_mid s" and "sh \<in> shapes (space s)"
  shows "sh < next_ref s"
proof (cases "sh \<in> boundary_shapes")
  case True
  then show ?thesis using wf_mid_next [OF assms(1)] by (auto simp: boundary_shapes_def)
next
  case False
  then obtain e where "e \<in> set (entities s)" and "sh = e_shape (entity_heap s e)"
    using assms by (auto simp: wf_mid_shapes)
  then show ?thesis using entity_ok_bounds [OF wf_mid_entity [OF assms(1)]] by simp
qed

lemma Entity_init_eq:
  assumes m: "wf_mid s" and k: "k \<noteq> BoxEntity"
  shows "thenR (Entity_init k pos st (type_of_class k) bt s)
           (\<lambda>(obj, s1). Inr (s1\<lparr>all_sprites := insert obj (all_sprites s1),
                                 entities := entities s1 @ [obj]\<rparr>))
         = Inr (spawned k pos (if st then STATIC else bt) s)"
proof -
  have b: "next_ref s + 1 \<notin> bodies (space s)" using wf_mid_fresh_body [OF m] by fastforce
  have c: "next_ref s + 2 \<notin> shapes (space s)" using wf_mid_fresh_shape [OF m] by fastforce
  show ?thesis
    using b c k by (simp add: Entity_init_def Let_def space_ops spawned_def)
qed

lemma BoxEntity_init_eq:
  assumes m: "wf_mid s"
  shows "thenR (BoxEntity_init pos st s)
           (\<lambda>(obj, s1). Inr (s1\<lparr>all_sprites := insert obj (all_sprites s1),
                                 entities := entities s1 @ [obj]\<rparr>))
         = Inr (spawned BoxEntity pos (if st then STATIC else DYNAMIC) s)"
proof -
  have b: "next_ref s + 1 \<notin> bodies (space s)" using wf_mid_fresh_body [OF m] by fastforce
  have c: "next_ref s + 2 \<notin> shapes (space s)" using wf_mid_fresh_shape [OF m] by fastforce
  have d: "next_ref s + 3 \<notin> shapes (space s)" using wf_mid_fresh_shape [OF m] by fastforce
  have e: "insert (next_ref s + 3) (insert (next_ref s + 2) (shapes (space s)) - {next_ref s + 2})
      = insert (next_ref s + 3) (shapes (space s))"
    using c by auto
  show ?thesis
    using b c d
    by (simp add: BoxEntity_init_def Entity_init_def Let_def space_ops spawned_def e)
qed

lemma wf_mid_spawned:
  assumes m: "wf_mid s"
  shows "wf_mid (spawned k pos bt s)"
proof (rule wf_midI)
  let ?s = "spawned k pos bt s"
  let ?n = "next_ref s"
  have es: "entities ?s = entities s @ [?n]" by (simp add: spawned_def Let_def)
  have old: "e < ?n \<and> e_body (entity_heap s e) < ?n \<and> e_shape (entity_heap s e) < ?n"
    if "e \<in> set (entities s)" for e
    using wf_mid_entity [OF m that] by (simp add: entity_ok_def Let_def)
  have fresh: "?n \<notin> set (entities s)" using old by blast
  have eh: "entity_heap ?s e = entity_heap s e" if "e \<in> set (entities s)" for e
    using old [OF that] by (simp add: spawned_def Let_def)
  let ?sh = "if k = BoxEntity then ?n + 3 else ?n + 2"
  have ehn: "entity_heap ?s ?n = \<lparr>cls = k, e_body = ?n + 1, e_shape = ?sh,
      e_collision_type = type_of_class k, marked_for_removal = False, rect_center = pos,
      image_rotation = 0\<rparr>"
    by (simp add: spawned_def Let_def)
  show "running ?s" using wf_mid_running [OF m] by (simp add: spawned_def Let_def)
  show "cam_ok (camera ?s)" using wf_mid_cam [OF m] by (simp add: spawned_def Let_def)
  show "5 < next_ref ?s" using wf_mid_next [OF m] by (simp add: spawned_def Let_def)
  show "distinct (entities ?s)" using wf_mid_distinct [OF m] fresh by (simp add: es)
  show "all_sprites ?s = set (entities ?s)"
    unfolding es using wf_mid_sprites [OF m] by (simp add: spawned_def Let_def)
  show "entity_ok ?s e" if "e \<in> set (entities ?s)" for e
  proof (cases "e = ?n")
    case True
    show ?thesis
      using wf_mid_next [OF m] unfolding True entity_ok_def ehn
      by (simp add: spawned_def Let_def)
  next
    case False
    then have e: "e \<in> set (entities s)" using that es by simp
    have "entity_ok s e" by (rule wf_mid_entity [OF m e])
    then show ?thesis
      using old [OF e] unfolding entity_ok_def eh [OF e]
      by (simp add: spawned_def Let_def)
  qed
  have img_b: "(\<lambda>e. e_body (entity_heap ?s e)) ` set (entities s)
      = (\<lambda>e. e_body (entity_heap s e)) ` set (entities s)"
    by (rule image_cong) (simp_all add: eh)
  have img_s: "(\<lambda>e. e_shape (entity_heap ?s e)) ` set (entities s)
      = (\<lambda>e. e_shape (entity_heap s e)) ` set (entities s)"
    by (rule image_cong) (simp_all add: eh)
  show "inj_on (\<lambda>e. e_body (entity_heap ?s e)) (set (entities ?s))"
  proof -
    have 1: "inj_on (\<lambda>e. e_body (entity_heap ?s e)) (set (entities s))"
      using wf_mid_inj [OF m] eh by (simp cong: inj_on_cong)
    have 2: "e_body (entity_heap ?s ?n) \<notin> (\<lambda>e. e_body (entity_heap ?s e)) ` (set (entities s) - {?n})"
      using old eh unfolding ehn by fastforce
    show ?thesis unfolding es using 1 2 by simp
  qed
  show "bodies (space ?s) = (\<lambda>e. e_body (entity_heap ?s e)) ` set (entities ?s)"
    unfolding es using img_b ehn by (simp add: spawned_def Let_def wf_mid_bodies [OF m])
  show "shapes (space ?s) = boundary_shapes \<union> (\<lambda>e. e_shape (entity_heap ?s e)) ` set (entities ?s)"
    unfolding es using img_s ehn by (simp add: spawned_def Let_def wf_mid_shapes [OF m])
  show "shape_heap ?s sh = \<lparr>shape_body = Some 0, collision_type = 0, parent_sprite = None\<rparr>"
    if "sh \<in> boundary_shapes" for sh
    using wf_mid_boundary [OF m that] wf_mid_next [OF m] that
    by (auto simp add: spawned_def Let_def boundary_shapes_def)
  show "j < next_ref ?s" if "j \<in> constraints (space ?s)" for j
    using wf_mid_constraints [OF m, of j] that by (simp add: spawned_def Let_def)
  show "c \<in> set (entities ?s) \<and> cls (entity_heap ?s c) = ControllableEntity"
    if "controllable_object ?s = Some c" for c
  proof -
    have c: "controllable_object s = Some c" using that by (simp add: spawned_def Let_def)
    note w = wf_mid_controllable [OF m c]
    show ?thesis using w eh [of c] by (simp add: es)
  qed
  show "static_body (space ?s) = 0" using wf_mid_static [OF m] by (simp add: spawned_def Let_def)
qed


lemma wf_spawned:
  assumes w: "wf_state s"
  shows "wf_state (spawned k pos bt s)"
proof -
  note m = wf_wf_mid [OF w]
  have "\<not> marked_for_removal (entity_heap (spawned k pos bt s) e)"
    if "e \<in> set (entities (spawned k pos bt s))" for e
  proof (cases "e = next_ref s")
    case True
    then show ?thesis by (simp add: spawned_def Let_def)
  next
    case False
    then have e: "e \<in> set (entities s)" using that by (simp add: spawned_def Let_def)
    then show ?thesis using wf_unmarked [OF w e] False by (simp add: spawned_def Let_def)
  qed
  then show ?thesis using wf_mid_spawned [OF m] by (simp add: wf_state_def)
qed

lemma wf_detach_all:
  assumes w: "wf_state s" and sub: "M \<subseteq> set (entities s)"
    and ctl: "\<And>c. controllable_object s = Some c \<Longrightarrow> c \<notin> M"
  shows "wf_state (detach_all M s)"
proof -
  have "\<not> marked_for_removal (entity_heap (detach_all M s) e)"
    if "e \<in> set (entities (detach_all M s))" for e
    using that wf_unmarked [OF w, of e] by (simp add: detach_all_def)
  then show ?thesis
    using wf_mid_detach_all [OF wf_wf_mid [OF w] sub ctl] by (simp add: wf_state_def)
qed

lemma screen_to_world_ok:
  assumes "cam_ok c"
  shows "\<exists>W. screen_to_world c p = Inr W"
  using assms by (simp add: screen_to_world_def cam_ok_def Let_def)

lemma add_object_at_pos_eq:
  assumes m: "wf_mid s"
  shows "add_object_at_pos pos t s =
     Inr (if t = ''ball'' then spawned Entity pos DYNAMIC s
          else if t = ''box'' then spawned BoxEntity pos DYNAMIC s
          else if t = ''bouncer'' then spawned BouncerEntity pos STATIC s
          else if t = ''coin'' then spawned CoinEntity pos DYNAMIC s
          else s)"
proof -
  have 1: "thenR (Entity_init Entity pos False COLLISION_TYPE_BALL DYNAMIC s)
           (\<lambda>(obj, s1). Inr (s1\<lparr>all_sprites := insert obj (all_sprites s1),
                                 entities := entities s1 @ [obj]\<rparr>))
         = Inr (spawned Entity pos DYNAMIC s)"
    using Entity_init_eq [OF m, of Entity pos False DYNAMIC] by simp
  have 2: "thenR (Entity_init BouncerEntity pos True COLLISION_TYPE_BOUNCER DYNAMIC s)
           (\<lambda>(obj, s1). Inr (s1\<lparr>all_sprites := insert obj (all_sprites s1),
                                 entities := entities s1 @ [obj]\<rparr>))
         = Inr (spawned BouncerEntity pos STATIC s)"
    using Entity_init_eq [OF m, of BouncerEntity pos True DYNAMIC] by simp
  have 3: "thenR (Entity_init CoinEntity pos False COLLISION_TYPE_COIN DYNAMIC s)
           (\<lambda>(obj, s1). Inr (s1\<lparr>all_sprites := insert obj (all_sprites s1),
                                 entities := entities s1 @ [obj]\<rparr>))
         = Inr (spawned CoinEntity pos DYNAMIC s)"
    using Entity_init_eq [OF m, of CoinEntity pos False DYNAMIC] by simp
  have 4: "thenR (BoxEntity_init pos False s)
           (\<lambda>(obj, s1). Inr (s1\<lparr>all_sprites := insert obj (all_sprites s1),
                                 entities := entities s1 @ [obj]\<rparr>))
         = Inr (spawned BoxEntity pos DYNAMIC s)"
    using BoxEntity_init_eq [OF m, of pos False] by simp
  show ?thesis
    unfolding add_object_at_pos_def Let_def BouncerEntity_init_def CoinEntity_init_def
    by (simp only: 1 2 3 4 if_distrib [of Inr] cong: if_cong)
qed

lemma wf_add_object_at_pos:
  assumes w: "wf_state s"
  shows "\<exists>s'. add_object_at_pos pos t s = Inr s' \<and> wf_state s'"
  unfolding add_object_at_pos_eq [OF wf_wf_mid [OF w]]
  using w wf_spawned [OF w] by simp

lemma wf_clear_controllable: "wf_state s \<Longrightarrow> wf_state (s\<lparr>controllable_object := None\<rparr>)"
  by (simp add: wf_state_def wf_mid_def entity_ok_def)

lemma wf_set_controllable:
  "wf_state s \<Longrightarrow> c \<in> set (entities s) \<Longrightarrow> cls (entity_heap s c) = ControllableEntity
   \<Longrightarrow> wf_state (s\<lparr>controllable_object := Some c\<rparr>)"
  by (simp add: wf_state_def wf_mid_def entity_ok_def)

lemma kill_and_remove_eq:
  assumes m: "wf_mid s" and c: "c \<in> set (entities s)"
  shows "thenR (kill_entity c s) (\<lambda>s1.
           thenR (list_remove c (entities s1)) (\<lambda>es. Inr (s1\<lparr>entities := es\<rparr>)))
         = Inr (detach_all {c} s)"
proof -
  have "remove1 c (entities s) = filter (\<lambda>e. e \<noteq> c) (entities s)"
    using wf_mid_distinct [OF m]
    by (simp add: distinct_remove1_removeAll removeAll_filter_not_eq) (metis)
  then show ?thesis
    using c by (simp add: kill_entity_eq list_remove_def detach_all_def)
qed

section \<open>The invariant under the window events\<close>

lemma ControllableEntity_init_result:
  assumes b: "next_ref s + 1 \<notin> bodies (space s)" and c: "next_ref s + 2 \<notin> shapes (space s)"
  shows "\<exists>s1. ControllableEntity_init pos s = Inr (next_ref s, s1)
    \<and> s1\<lparr>all_sprites := insert (next_ref s) (all_sprites s1),
          entities := entities s1 @ [next_ref s]\<rparr> = spawned ControllableEntity pos DYNAMIC s"
  using b c
  by (simp add: ControllableEntity_init_def Entity_init_def Let_def space_ops spawned_def)

lemma wf_add_player_gui:
  assumes w: "wf_state s"
  shows "\<exists>s'. add_player_gui s = Inr s' \<and> wf_state s'"
proof -
  note m = wf_wf_mid [OF w]
  obtain W where W: "screen_to_world (camera s) view_centre = Inr W"
    using screen_to_world_ok [OF wf_mid_cam [OF m]] by blast
  define s0 where "s0 = (case controllable_object s of Some c \<Rightarrow> detach_all {c} s | None \<Rightarrow> s)"
  have old: "(case controllable_object s of
              Some c \<Rightarrow>
                if c \<in> all_sprites s then
                  thenR (kill_entity c s) (\<lambda>s1.
                  thenR (list_remove c (entities s1)) (\<lambda>es. Inr (s1\<lparr>entities := es\<rparr>)))
                else Inr s
            | None \<Rightarrow> Inr s) = Inr s0"
  proof (cases "controllable_object s")
    case None
    then show ?thesis by (simp add: s0_def)
  next
    case (Some c)
    have c: "c \<in> set (entities s)" using wf_mid_controllable [OF m Some] by simp
    show ?thesis
      using c by (simp add: Some s0_def wf_mid_sprites [OF m] kill_and_remove_eq [OF m c])
  qed
  have w0: "wf_state (s0\<lparr>controllable_object := None\<rparr>)"
  proof (cases "controllable_object s")
    case None
    then show ?thesis using wf_clear_controllable [OF w] by (simp add: s0_def)
  next
    case (Some c)
    have c: "c \<in> set (entities s)" using wf_mid_controllable [OF m Some] by simp
    have "wf_state (detach_all {c} (s\<lparr>controllable_object := None\<rparr>))"
      by (rule wf_detach_all [OF wf_clear_controllable [OF w]]) (simp_all add: c)
    moreover have "detach_all {c} (s\<lparr>controllable_object := None\<rparr>)
        = (detach_all {c} s)\<lparr>controllable_object := None\<rparr>"
      by (simp add: detach_all_def)
    ultimately show ?thesis by (simp add: s0_def Some)
  qed
  have m0: "wf_mid (s0\<lparr>controllable_object := None\<rparr>)" by (rule wf_wf_mid [OF w0])
  have b: "next_ref s0 + 1 \<notin> bodies (space s0)"
    using wf_mid_fresh_body [OF m0, of "next_ref s0 + 1"] by auto
  have c: "next_ref s0 + 2 \<notin> shapes (space s0)"
    using wf_mid_fresh_shape [OF m0, of "next_ref s0 + 2"] by auto
  obtain s1 where s1: "ControllableEntity_init W s0 = Inr (next_ref s0, s1)"
    and sp: "s1\<lparr>all_sprites := insert (next_ref s0) (all_sprites s1),
          entities := entities s1 @ [next_ref s0]\<rparr> = spawned ControllableEntity W DYNAMIC s0"
    using ControllableEntity_init_result [OF b c, of W] by auto
  define s' where "s' = (spawned ControllableEntity W DYNAMIC s0)
      \<lparr>controllable_object := Some (next_ref s0)\<rparr>"
  have "s1\<lparr>all_sprites := insert (next_ref s0) (all_sprites s1),
          entities := entities s1 @ [next_ref s0],
          controllable_object := Some (next_ref s0)\<rparr> = s'"
    unfolding s'_def sp [symmetric] by simp
  then have r: "add_player_gui s = Inr s'"
    unfolding add_player_gui_def W thenR_simps old s1 by simp
  have "s' = (spawned ControllableEntity W DYNAMIC (s0\<lparr>controllable_object := None\<rparr>))
      \<lparr>controllable_object := Some (next_ref s0)\<rparr>"
    by (simp add: s'_def spawned_def Let_def)
  moreover have "wf_state \<dots>"
    by (rule wf_set_controllable [OF wf_spawned [OF w0]]) (simp_all add: spawned_def Let_def)
  ultimately show ?thesis using r by simp
qed


lemma wf_add_joint:
  assumes w: "wf_state s"
  shows "wf_state (s\<lparr>selected_shape_drag := a, joint_heap := h, next_ref := next_ref s + 1,
            space := (space s)\<lparr>constraints := insert (next_ref s) (constraints (space s))\<rparr>,
            mouse_joint := b\<rparr>)"
  using w unfolding wf_state_def wf_mid_def entity_ok_def Let_def
  by (auto simp: less_Suc_eq)

lemma wf_on_mouse_press:
  assumes w: "wf_state s"
  shows "\<exists>s'. on_mouse_press q p s = Inr s' \<and> wf_state s'"
proof -
  note m = wf_wf_mid [OF w]
  obtain W where W: "screen_to_world (camera s) (as_screen_pos p) = Inr W"
    using screen_to_world_ok [OF wf_mid_cam [OF m]] by blast
  have f: "next_ref s \<notin> constraints (space s)"
    using wf_mid_constraints [OF m, of "next_ref s"] by auto
  show ?thesis
    using w wf_add_joint [OF w] f wf_mid_running [OF m]
    by (simp add: on_mouse_press_def W Let_def space_add_constraint_def
        split: option.split)
qed

lemma wf_on_mouse_release:
  assumes w: "wf_state s"
  shows "\<exists>s'. on_mouse_release s = Inr s' \<and> wf_state s'"
proof -
  have "wf_state (s\<lparr>space := (space s)\<lparr>constraints := constraints (space s) - {j}\<rparr>,
      mouse_joint := None, selected_shape_drag := None\<rparr>)" for j
    using w unfolding wf_state_def wf_mid_def entity_ok_def Let_def by auto
  then show ?thesis
    using w by (simp add: on_mouse_release_def space_remove_constraint_def split: option.split)
qed

lemma wf_on_mouse_motion:
  assumes w: "wf_state s"
  shows "\<exists>s'. on_mouse_motion p s = Inr s' \<and> wf_state s'"
proof -
  obtain W where W: "screen_to_world (camera s) (as_screen_pos p) = Inr W"
    using screen_to_world_ok [OF wf_mid_cam [OF wf_wf_mid [OF w]]] by blast
  have "wf_state (s\<lparr>body_heap := h\<rparr>)" for h
    using w unfolding wf_state_def wf_mid_def entity_ok_def Let_def by simp
  then show ?thesis using w by (simp add: on_mouse_motion_def W)
qed

lemma cam_ok_zoom_in: "cam_ok c \<Longrightarrow> cam_ok (zoom_in c)"
  unfolding cam_ok_def zoom_in_def by (auto simp: min_def)

lemma cam_ok_zoom_out: "cam_ok c \<Longrightarrow> cam_ok (zoom_out c)"
  unfolding cam_ok_def zoom_out_def by (auto simp: max_def)

lemma wf_camera:
  "wf_state s \<Longrightarrow> cam_ok c \<Longrightarrow> wf_state (s\<lparr>camera := c\<rparr>)"
  unfolding wf_state_def wf_mid_def entity_ok_def Let_def by simp

lemma wf_on_mouse_wheel:
  assumes w: "wf_state s"
  shows "wf_state (on_mouse_wheel d dir s)"
  using w wf_camera [OF w cam_ok_zoom_in [OF wf_mid_cam [OF wf_wf_mid [OF w]]]]
    wf_camera [OF w cam_ok_zoom_out [OF wf_mid_cam [OF wf_wf_mid [OF w]]]]
  by (simp add: on_mouse_wheel_def split: option.split)

lemma wf_keys: "wf_state s \<Longrightarrow> wf_state (s\<lparr>pressed_keys := k\<rparr>)"
  unfolding wf_state_def wf_mid_def entity_ok_def Let_def by simp

lemma wf_gravity:
  "wf_state s \<Longrightarrow> wf_state (s\<lparr>space := (space s)\<lparr>gravity := g\<rparr>\<rparr>)"
  unfolding wf_state_def wf_mid_def entity_ok_def Let_def by simp

lemma wf_toggle_debug_draw: "wf_state s \<Longrightarrow> wf_state (toggle_debug_draw s)"
  unfolding wf_state_def wf_mid_def entity_ok_def Let_def toggle_debug_draw_def by simp

lemma wf_add_object_at_mouse_center:
  assumes w: "wf_state s"
  shows "\<exists>s'. add_object_at_mouse_center t s = Inr s' \<and> wf_state s'"
proof -
  obtain W where W: "screen_to_world (camera s) view_centre = Inr W"
    using screen_to_world_ok [OF wf_mid_cam [OF wf_wf_mid [OF w]]] by blast
  show ?thesis
    using wf_add_object_at_pos [OF w] by (simp add: add_object_at_mouse_center_def W)
qed

lemma wf_on_right_click:
  assumes w: "wf_state s"
  shows "\<exists>s'. on_right_click p s = Inr s' \<and> wf_state s'"
proof -
  obtain W where W: "screen_to_world (camera s) (as_screen_pos p) = Inr W"
    using screen_to_world_ok [OF wf_mid_cam [OF wf_wf_mid [OF w]]] by blast
  show ?thesis
    using wf_add_object_at_pos [OF w] wf_mid_running [OF wf_wf_mid [OF w]]
    by (simp add: on_right_click_def add_object_at_click_def W)
qed

section \<open>The begin-contact callbacks and the physics step\<close>

lemma player_collect_coin_begin_eq:
  "player_collect_coin_begin arb t =
     Inr (True, case coin_sprite t (snd arb) of Some e \<Rightarrow> on_collected e t | None \<Rightarrow> t)"
  by (simp add: player_collect_coin_begin_def coin_sprite_def Let_def split: option.split)

lemma mark_all_empty [simp]: "mark_all {} h = h"
  by (simp add: mark_all_def fun_eq_iff)

lemma after_contacts_nil: "after_contacts t [] [] = t"
  by (simp add: after_contacts_def)

lemma on_collected_eq: "on_collected e t = after_contacts t [e] []"
  by (simp add: on_collected_def after_contacts_def mark_all_def fun_eq_iff)

lemma after_contacts_trace:
  "t\<lparr>trace := trace t @ H\<rparr> = after_contacts t [] H"
  by (simp add: after_contacts_def)

lemma after_contacts_twice:
  "after_contacts (after_contacts t es H) es' H' = after_contacts t (es @ es') (H @ H')"
  by (auto simp add: after_contacts_def mark_all_def fun_eq_iff algebra_simps)

lemma on_collision_frame:
  assumes "has_body t other"
  shows "\<exists>H. on_collision e other t = Inr (after_contacts t [] H) \<and> list_all is_impulse H"
proof -
  obtain ob where ob: "shape_body (shape_heap t other) = Some ob"
    using assms by (auto simp: has_body_def)
  show ?thesis
  proof (cases "body_type (body_heap t ob) = DYNAMIC")
    case True
    define imp where "imp = ApplyImpulseAtLocalPoint ob
        (vscale (vscale (normalized (vsub (position (body_heap t ob))
           (position (body_heap t (e_body (entity_heap t e)))))) bounce_force) TIME_STEP) (0, 0)"
    have "on_collision e other t = Inr (after_contacts t [] [imp])"
      using True by (simp add: on_collision_def ob Let_def emit_def after_contacts_def imp_def)
    moreover have "list_all is_impulse [imp]" by (simp add: imp_def)
    ultimately show ?thesis by blast
  next
    case False
    then have "on_collision e other t = Inr (after_contacts t [] [])"
      by (simp add: on_collision_def ob after_contacts_nil)
    moreover have "list_all is_impulse []" by simp
    ultimately show ?thesis by blast
  qed
qed

lemma bouncer_reaction_frame:
  assumes hb: "has_body t other"
  shows "\<exists>H. (case parent_sprite (shape_heap t b) of
           Some e \<Rightarrow>
             if cls (entity_heap t e) = BouncerEntity then
               thenR (on_collision e other t) (\<lambda>s'. Inr (True, s'))
             else Inr (True, t)
         | None \<Rightarrow> Inr (True, t)) = Inr (True, after_contacts t [] H)
           \<and> list_all is_impulse H"
proof -
  have none: "Inr (True, t) = Inr (True, after_contacts t [] []) \<and> list_all is_impulse []"
    by (simp add: after_contacts_nil)
  show ?thesis
  proof (cases "parent_sprite (shape_heap t b)")
    case None
    show ?thesis unfolding None option.case
      by (rule exI [of _ "[]"]) (simp add: after_contacts_nil)
  next
    case (Some e)
    show ?thesis
    proof (cases "cls (entity_heap t e) = BouncerEntity")
      case True
      obtain H where H: "on_collision e other t = Inr (after_contacts t [] H)"
        "list_all is_impulse H"
        using on_collision_frame [OF hb] by blast
      show ?thesis unfolding Some option.case
        by (rule exI [of _ H]) (simp add: True H)
    next
      case False
      show ?thesis unfolding Some option.case
        by (rule exI [of _ "[]"]) (simp add: after_contacts_nil False)
    qed
  qed
qed

lemma bouncer_interaction_begin_frame:
  assumes "has_body t (fst arb)" and "has_body t (snd arb)"
  shows "\<exists>H. bouncer_interaction_begin arb t = Inr (True, after_contacts t [] H)
           \<and> list_all is_impulse H"
proof (cases "collision_type (shape_heap t (fst arb)) \<noteq> COLLISION_TYPE_BOUNCER")
  case True
  then show ?thesis
    using bouncer_reaction_frame [OF assms(1), of "snd arb"]
    by (simp add: bouncer_interaction_begin_def Let_def)
next
  case False
  then show ?thesis
    using bouncer_reaction_frame [OF assms(2), of "fst arb"]
    by (simp add: bouncer_interaction_begin_def Let_def split_beta)
qed

lemma has_body_after_contacts [simp]:
  "has_body (after_contacts t es H) sh = has_body t sh"
  by (simp add: has_body_def after_contacts_def)

lemma shape_heap_after_contacts [simp]:
  "shape_heap (after_contacts t es H) = shape_heap t"
  by (simp add: after_contacts_def)

lemma cls_mark_all [simp]: "cls (mark_all M h e) = cls (h e)"
  by (simp add: mark_all_def)

lemma coin_sprite_after_contacts [simp]:
  "coin_sprite (after_contacts t es H) sh = coin_sprite t sh"
  by (simp add: coin_sprite_def after_contacts_def cong: option.case_cong)

lemma collected_by_after_contacts [simp]:
  "collected_by (after_contacts t es H) arb = collected_by t arb"
  by (simp add: collected_by_def Let_def)

lemma collision_begin_eq:
  assumes a: "has_body t (fst arb)" and b: "has_body t (snd arb)"
  shows "\<exists>H. collision_begin arb t
           = Inr (after_contacts t (case collected_by t arb of Some e \<Rightarrow> [e] | None \<Rightarrow> []) H)
         \<and> list_all is_impulse H"
proof -
  let ?ta = "collision_type (shape_heap t (fst arb))"
  let ?tb = "collision_type (shape_heap t (snd arb))"
  consider (pc) "?ta = COLLISION_TYPE_PLAYER \<and> ?tb = COLLISION_TYPE_COIN"
    | (cp) "\<not> (?ta = COLLISION_TYPE_PLAYER \<and> ?tb = COLLISION_TYPE_COIN)"
           "?ta = COLLISION_TYPE_COIN \<and> ?tb = COLLISION_TYPE_PLAYER"
    | (wild) "\<not> (?ta = COLLISION_TYPE_PLAYER \<and> ?tb = COLLISION_TYPE_COIN)"
           "\<not> (?ta = COLLISION_TYPE_COIN \<and> ?tb = COLLISION_TYPE_PLAYER)"
    by blast
  then show ?thesis
  proof cases
    case pc
    have "collision_begin arb t
        = Inr (after_contacts t (case collected_by t arb of Some e \<Rightarrow> [e] | None \<Rightarrow> []) [])"
      using pc
      by (simp add: collision_begin_def collected_by_def player_collect_coin_begin_eq
          on_collected_eq after_contacts_nil Let_def split: option.split)
    moreover have "list_all is_impulse []" by simp
    ultimately show ?thesis by blast
  next
    case cp
    have "collision_begin arb t
        = Inr (after_contacts t (case collected_by t arb of Some e \<Rightarrow> [e] | None \<Rightarrow> []) [])"
      using cp
      by (simp add: collision_begin_def collected_by_def player_collect_coin_begin_eq
          on_collected_eq after_contacts_nil Let_def split: option.split)
    moreover have "list_all is_impulse []" by simp
    ultimately show ?thesis by blast
  next
    case wild
    have none: "collected_by t arb = None" using wild by (auto simp: collected_by_def Let_def)
    obtain H1 where h1: "(if ?ta = COLLISION_TYPE_BOUNCER
               then thenR (bouncer_interaction_begin arb t) (\<lambda>r. Inr (snd r))
               else Inr t) = Inr (after_contacts t [] H1)" and i1: "list_all is_impulse H1"
    proof (cases "?ta = COLLISION_TYPE_BOUNCER")
      case True
      obtain H where "bouncer_interaction_begin arb t = Inr (True, after_contacts t [] H)"
        and "list_all is_impulse H"
        using bouncer_interaction_begin_frame [OF a b] by blast
      then show ?thesis using that [of H] True by simp
    next
      case False
      then show ?thesis using that [of "[]"] by (simp add: after_contacts_nil)
    qed
    let ?t1 = "after_contacts t [] H1"
    obtain H2 where h2: "(if ?tb = COLLISION_TYPE_BOUNCER
        then thenR (bouncer_interaction_begin (snd arb, fst arb) ?t1) (\<lambda>r. Inr (snd r))
        else Inr ?t1) = Inr (after_contacts ?t1 [] H2)" and i2: "list_all is_impulse H2"
    proof (cases "?tb = COLLISION_TYPE_BOUNCER")
      case True
      have "has_body ?t1 (fst (snd arb, fst arb))" "has_body ?t1 (snd (snd arb, fst arb))"
        using a b by simp_all
      then obtain H where "bouncer_interaction_begin (snd arb, fst arb) ?t1
          = Inr (True, after_contacts ?t1 [] H)" and "list_all is_impulse H"
        using bouncer_interaction_begin_frame by blast
      then show ?thesis using that [of H] True by simp
    next
      case False
      then show ?thesis using that [of "[]"] by (simp add: after_contacts_nil)
    qed
    have cb: "collision_begin arb t =
        thenR (if ?ta = COLLISION_TYPE_BOUNCER
               then thenR (bouncer_interaction_begin arb t) (\<lambda>r. Inr (snd r))
               else Inr t) (\<lambda>s1.
        if ?tb = COLLISION_TYPE_BOUNCER
        then thenR (bouncer_interaction_begin (snd arb, fst arb) s1) (\<lambda>r. Inr (snd r))
        else Inr s1)"
      unfolding collision_begin_def Let_def by (simp only: wild if_False)
    have "collision_begin arb t = Inr (after_contacts ?t1 [] H2)"
      unfolding cb h1 thenR_simps h2 ..
    then have "collision_begin arb t = Inr (after_contacts t [] (H1 @ H2))"
      by (simp add: after_contacts_twice)
    moreover have "list_all is_impulse (H1 @ H2)" using i1 i2 by simp
    ultimately show ?thesis unfolding none option.case by blast
  qed
qed


lemma collected_after_contacts [simp]:
  "collected (after_contacts t es H) bs = collected t bs"
proof -
  have "collected_by (after_contacts t es H) = collected_by t" by (rule ext) simp
  then show ?thesis by (simp add: collected_def)
qed

lemma collected_Cons:
  "collected t (arb # bs)
     = (case collected_by t arb of Some e \<Rightarrow> [e] | None \<Rightarrow> []) @ collected t bs"
  by (simp add: collected_def map_filter_simps split: option.split)

lemma for_each_collision_begin_eq:
  assumes "list_all (\<lambda>arb. has_body t (fst arb) \<and> has_body t (snd arb)) bs"
  shows "\<exists>H. for_each collision_begin bs t = Inr (after_contacts t (collected t bs) H)
           \<and> list_all is_impulse H \<and> (bs = [] \<longrightarrow> H = [])"
  using assms
proof (induction bs arbitrary: t)
  case Nil
  have "for_each collision_begin [] t = Inr (after_contacts t (collected t []) [])"
    by (simp add: collected_def after_contacts_nil)
  moreover have "list_all is_impulse []" by simp
  ultimately show ?case by blast
next
  case (Cons arb bs)
  let ?es = "case collected_by t arb of Some e \<Rightarrow> [e] | None \<Rightarrow> []"
  have a: "has_body t (fst arb)" and b: "has_body t (snd arb)"
    using Cons.prems by simp_all
  obtain H1 where h1: "collision_begin arb t = Inr (after_contacts t ?es H1)"
    and i1: "list_all is_impulse H1"
    using collision_begin_eq [OF a b] by blast
  let ?t1 = "after_contacts t ?es H1"
  have "list_all (\<lambda>arb. has_body ?t1 (fst arb) \<and> has_body ?t1 (snd arb)) bs"
    using Cons.prems by simp
  then obtain H2 where h2: "for_each collision_begin bs ?t1
      = Inr (after_contacts ?t1 (collected ?t1 bs) H2)" and i2: "list_all is_impulse H2"
    using Cons.IH by blast
  have "for_each collision_begin (arb # bs) t = Inr (after_contacts ?t1 (collected ?t1 bs) H2)"
    by (simp only: for_each.simps h1 thenR_simps h2)
  also have "\<dots> = Inr (after_contacts t (collected t (arb # bs)) (H1 @ H2))"
    by (simp add: after_contacts_twice collected_Cons)
  finally have "for_each collision_begin (arb # bs) t
      = Inr (after_contacts t (collected t (arb # bs)) (H1 @ H2))" .
  moreover have "list_all is_impulse (H1 @ H2)" using i1 i2 by simp
  ultimately show ?case by blast
qed

lemma collected_cong:
  assumes "shape_heap s' = shape_heap s"
    and "\<And>e. cls (entity_heap s' e) = cls (entity_heap s e)"
  shows "collected s' bs = collected s bs"
proof -
  have "coin_sprite s' sh = coin_sprite s sh" for sh
    using assms by (simp add: coin_sprite_def cong: option.case_cong)
  then have "collected_by s' arb = collected_by s arb" for arb
    using assms(1) by (simp add: collected_by_def Let_def)
  then have "collected_by s' = collected_by s" by (rule ext)
  then show ?thesis by (simp add: collected_def)
qed

lemma collected_integrate [simp]: "collected (integrate out s) bs = collected s bs"
  by (rule collected_cong) (simp_all add: integrate_def)

lemma collected_emit [simp]: "collected (emit c s) bs = collected s bs"
  by (rule collected_cong) (simp_all add: emit_def)

lemma integrate_emit: "integrate out (emit c s) = emit c (integrate out s)"
  by (simp add: integrate_def emit_def cong: if_cong option.case_cong)

lemma after_contacts_emit: "after_contacts (emit c t) es H = after_contacts t es (c # H)"
  by (simp add: after_contacts_def emit_def)

lemma space_step_eq:
  assumes "list_all (\<lambda>arb. has_body s (fst arb) \<and> has_body s (snd arb)) (begins out)"
  shows "\<exists>H. space_step dt out s
           = Inr (after_contacts (integrate out s) (collected s (begins out)) (Step dt # H))
         \<and> list_all is_impulse H \<and> (begins out = [] \<longrightarrow> H = [])"
proof -
  let ?t = "integrate out (emit (Step dt) s)"
  have "list_all (\<lambda>arb. has_body ?t (fst arb) \<and> has_body ?t (snd arb)) (begins out)"
    using assms by (simp add: has_body_def integrate_def emit_def)
  then obtain H where h: "for_each collision_begin (begins out) ?t
      = Inr (after_contacts ?t (collected ?t (begins out)) H)"
    and i: "list_all is_impulse H \<and> (begins out = [] \<longrightarrow> H = [])"
    using for_each_collision_begin_eq by blast
  have "after_contacts ?t (collected ?t (begins out)) H
      = after_contacts (integrate out s) (collected s (begins out)) (Step dt # H)"
    by (simp add: integrate_emit after_contacts_emit)
  then show ?thesis using h i unfolding space_step_def by auto
qed

section \<open>The update loop, steering and rendering\<close>

lemma sync_heap_fields [simp]:
  "e_body (sync_heap xs t e) = e_body (entity_heap t e)"
  "e_shape (sync_heap xs t e) = e_shape (entity_heap t e)"
  "cls (sync_heap xs t e) = cls (entity_heap t e)"
  "e_collision_type (sync_heap xs t e) = e_collision_type (entity_heap t e)"
  "marked_for_removal (sync_heap xs t e) = marked_for_removal (entity_heap t e)"
  by (simp_all add: sync_heap_def sync_def)

lemma update_entity_eq:
  assumes d: "distinct (entities t)"
  shows "update_entity x t = Inr (swept [x] t)"
proof -
  have r: "remove1 x (entities t) = filter (\<lambda>e. e \<noteq> x) (entities t)"
    using d by (simp add: distinct_remove1_removeAll removeAll_filter_not_eq) metis
  have n: "x \<notin> set (entities t) \<Longrightarrow> filter (\<lambda>e. e \<noteq> x) (entities t) = entities t"
    by (auto simp: filter_id_conv)
  show ?thesis
  proof (cases "marked_for_removal (entity_heap t x)")
    case True
    have s: "sync_heap [x] t = entity_heap t"
      using True by (simp add: sync_heap_def fun_eq_iff)
    have m: "{e \<in> set [x]. marked_for_removal (entity_heap t e)} = {x}" using True by auto
    show ?thesis
      unfolding swept_def s m using True r n
      by (simp add: update_entity_def Entity_update_def Let_def emit_def kill_entity_eq
          list_remove_def detach_all_def)
  next
    case False
    have m: "{e \<in> set [x]. marked_for_removal (entity_heap t e)} = {}" using False by auto
    have d0: "detach_all {} t = t" by (simp add: detach_all_def)
    show ?thesis
      unfolding swept_def m d0 using False
      by (auto simp add: update_entity_def Entity_update_def Let_def emit_def sync_heap_def
          sync_def fun_eq_iff)
  qed
qed


lemma swept_fields [simp]:
  "body_heap (swept xs t) = body_heap t"
  "entity_heap (swept xs t) = sync_heap xs t"
  "trace (swept xs t) = trace t @ map Update xs"
  "entities (swept xs t)
     = filter (\<lambda>e. \<not> (e \<in> set xs \<and> marked_for_removal (entity_heap t e))) (entities t)"
  by (simp_all add: swept_def detach_all_def)

lemma sync_heap_swept:
  "sync_heap xs (swept [x] t) = sync_heap (x # xs) t"
  by (rule ext) (auto simp add: sync_heap_def sync_def)

lemma swept_swept: "swept xs (swept [x] t) = swept (x # xs) t"
proof (rule app.equality)
  show "space (swept xs (swept [x] t)) = space (swept (x # xs) t)"
    by (rule pm_space.equality) (auto simp: swept_def detach_all_def)
  show "all_sprites (swept xs (swept [x] t)) = all_sprites (swept (x # xs) t)"
    by (auto simp: swept_def detach_all_def)
  show "entities (swept xs (swept [x] t)) = entities (swept (x # xs) t)"
    by (simp add: swept_def detach_all_def) (rule filter_cong, auto)
  show "entity_heap (swept xs (swept [x] t)) = entity_heap (swept (x # xs) t)"
    by (simp only: swept_fields sync_heap_swept)
qed (simp_all add: swept_def detach_all_def)

lemma for_each_update_entity:
  assumes "distinct (entities t)"
  shows "for_each update_entity xs t = Inr (swept xs t)"
  using assms
proof (induction xs arbitrary: t)
  case Nil
  have "swept [] t = t" by (simp add: swept_def detach_all_def sync_heap_def)
  then show ?case by simp
next
  case (Cons x xs)
  have d: "distinct (entities (swept [x] t))" using Cons.prems by simp
  have "for_each update_entity (x # xs) t = for_each update_entity xs (swept [x] t)"
    by (simp only: for_each.simps update_entity_eq [OF Cons.prems] thenR_simps)
  also have "\<dots> = Inr (swept xs (swept [x] t))" by (rule Cons.IH [OF d])
  finally show ?case by (simp only: swept_swept)
qed


lemma pan_ok:
  assumes "cam_ok c"
  shows "\<exists>c'. pan dx dy c = Inr c' \<and> cam_ok c'"
  using assms by (simp add: pan_def cam_ok_def)

lemma handle_keyboard_input_eq:
  assumes "cam_ok (camera s)"
  shows "handle_keyboard_input s = Inr (s\<lparr>camera := panned_camera (pressed_keys s) (camera s)\<rparr>)"
    and "cam_ok (panned_camera (pressed_keys s) (camera s))"
proof -
  have z: "zoom (camera s) \<noteq> 0" using assms by (simp add: cam_ok_def)
  show "handle_keyboard_input s = Inr (s\<lparr>camera := panned_camera (pressed_keys s) (camera s)\<rparr>)"
    using z
    by (simp add: handle_keyboard_input_def panned_camera_def key_axis_def pan_def Let_def)
  show "cam_ok (panned_camera (pressed_keys s) (camera s))"
    using assms by (simp add: panned_camera_def cam_ok_def Let_def)
qed

lemma steer_eq:
  "\<exists>F. steer s = s\<lparr>trace := trace s @ F\<rparr>
     \<and> (F = [] \<or> (\<exists>c fx fy. controllable_object s = Some c \<and> c \<in> all_sprites s
           \<and> F = [ApplyForceAtLocalPoint (e_body (entity_heap s c)) (fx, fy) (0, 0)]
           \<and> fx ^ 2 + fy ^ 2 = force_magnitude ^ 2))"
proof -
  have none: "steer s = s \<Longrightarrow> ?thesis"
    by (rule exI [of _ "[]"]) simp
  show ?thesis
  proof (cases "controllable_object s")
    case None
    then show ?thesis by (intro none) (simp add: steer_def)
  next
    case (Some c)
    show ?thesis
    proof (cases "c \<in> all_sprites s")
      case False
      then show ?thesis by (intro none) (simp add: steer_def Some)
    next
      case True
      define y where "y = (if ''s'' \<in> pressed_keys s
           then (if ''w'' \<in> pressed_keys s then 0 - 1 else 0) + 1
           else (if ''w'' \<in> pressed_keys s then 0 - 1 else (0::real)))"
      define x where "x = (if ''d'' \<in> pressed_keys s
           then (if ''a'' \<in> pressed_keys s then 0 - 1 else 0) + 1
           else (if ''a'' \<in> pressed_keys s then 0 - 1 else (0::real)))"
      have st: "steer s = (if x \<noteq> 0 \<or> y \<noteq> 0
          then apply_force c (x / sqrt (x ^ 2 + y ^ 2), y / sqrt (x ^ 2 + y ^ 2)) s else s)"
        unfolding steer_def Some option.case Let_def x_def y_def using True by (simp only: if_True)
      show ?thesis
      proof (cases "x \<noteq> 0 \<or> y \<noteq> 0")
        case False
        then show ?thesis by (intro none) (simp only: st if_False)
      next
        case nz: True
        define l where "l = sqrt (x ^ 2 + y ^ 2)"
        define fx where "fx = x / l * force_magnitude"
        define fy where "fy = y / l * force_magnitude"
        have pos: "0 < x ^ 2 + y ^ 2" using nz by (auto simp: sum_power2_gt_zero_iff)
        then have l2: "l ^ 2 = x ^ 2 + y ^ 2" by (simp add: l_def)
        have lnz: "l \<noteq> 0" using pos l2 by auto
        have "fx ^ 2 + fy ^ 2 = (x ^ 2 + y ^ 2) / l ^ 2 * force_magnitude ^ 2"
          unfolding fx_def fy_def
          by (simp add: power_mult_distrib power_divide add_divide_distrib distrib_right)
        also have "\<dots> = force_magnitude ^ 2" using nz unfolding l2 by auto
        finally have n: "fx ^ 2 + fy ^ 2 = force_magnitude ^ 2" .
        have e: "steer s = s\<lparr>trace := trace s @
            [ApplyForceAtLocalPoint (e_body (entity_heap s c)) (fx, fy) (0, 0)]\<rparr>"
          unfolding st using nz
          by (simp add: apply_force_def emit_def Let_def fx_def fy_def l_def)
        have "controllable_object s = Some c \<and> c \<in> all_sprites s
           \<and> [ApplyForceAtLocalPoint (e_body (entity_heap s c)) (fx, fy) (0, 0)]
               = [ApplyForceAtLocalPoint (e_body (entity_heap s c)) (fx, fy) (0, 0)]
           \<and> fx ^ 2 + fy ^ 2 = force_magnitude ^ 2"
          using Some True n by simp
        then have "\<exists>c' fx' fy'. controllable_object s = Some c' \<and> c' \<in> all_sprites s
           \<and> [ApplyForceAtLocalPoint (e_body (entity_heap s c)) (fx, fy) (0, 0)]
               = [ApplyForceAtLocalPoint (e_body (entity_heap s c')) (fx', fy') (0, 0)]
           \<and> fx' ^ 2 + fy' ^ 2 = force_magnitude ^ 2"
          by (intro exI)
        with e show ?thesis by (intro exI [of _ "[ApplyForceAtLocalPoint (e_body (entity_heap s c)) (fx, fy) (0, 0)]"] conjI disjI2)
      qed
    qed
  qed
qed

lemma Entity_draw_eq:
  "Entity_draw x t = t\<lparr>trace := trace t @ map Draw (filter (\<lambda>e. e \<in> all_sprites t) [x])\<rparr>"
  by (simp add: Entity_draw_def emit_def)

lemma fold_Entity_draw:
  "fold Entity_draw xs t = t\<lparr>trace := trace t @ map Draw (filter (\<lambda>e. e \<in> all_sprites t) xs)\<rparr>"
proof (induction xs arbitrary: t)
  case Nil
  show ?case by simp
next
  case (Cons x xs)
  have "fold Entity_draw (x # xs) t = fold Entity_draw xs (Entity_draw x t)" by simp
  also have "\<dots> = (Entity_draw x t)\<lparr>trace := trace (Entity_draw x t)
      @ map Draw (filter (\<lambda>e. e \<in> all_sprites (Entity_draw x t)) xs)\<rparr>"
    by (rule Cons.IH)
  also have "\<dots> = t\<lparr>trace := trace t @ map Draw (filter (\<lambda>e. e \<in> all_sprites t) (x # xs))\<rparr>"
    by (simp add: Entity_draw_eq)
  finally show ?case .
qed

lemma render_eq:
  assumes "all_sprites s = set (entities s)"
  shows "render s = s\<lparr>trace := trace s @ ClearSurface # map Draw (entities s) @ [UpdateCanvas]\<rparr>"
proof -
  have "filter (\<lambda>e. e \<in> set (entities s)) (entities s) = entities s" by simp
  then show ?thesis
    using assms by (simp add: render_def fold_Entity_draw emit_def)
qed

section \<open>One tick keeps the invariant\<close>

lemma wf_mid_has_body:
  assumes m: "wf_mid s" and sh: "sh \<in> shapes (space s)"
  shows "has_body s sh"
proof (cases "sh \<in> boundary_shapes")
  case True
  then show ?thesis using wf_mid_boundary [OF m True] by (simp add: has_body_def)
next
  case False
  then obtain e where e: "e \<in> set (entities s)" and "sh = e_shape (entity_heap s e)"
    using sh by (auto simp: wf_mid_shapes [OF m])
  then show ?thesis
    using wf_mid_entity [OF m e] by (simp add: has_body_def entity_ok_def Let_def)
qed

lemma collected_by_coin:
  "collected_by s arb = Some e \<Longrightarrow> cls (entity_heap s e) = CoinEntity"
  by (auto simp: collected_by_def coin_sprite_def Let_def split: if_splits option.splits)

lemma set_collected:
  "e \<in> set (collected s bs) \<longleftrightarrow> (\<exists>arb\<in>set bs. collected_by s arb = Some e)"
  by (force simp: collected_def map_filter_def image_iff)

lemma collected_coin:
  "e \<in> set (collected s bs) \<Longrightarrow> cls (entity_heap s e) = CoinEntity"
  by (auto simp: set_collected collected_by_coin)

lemma mark_all_fields [simp]:
  "e_body (mark_all M h e) = e_body (h e)"
  "e_shape (mark_all M h e) = e_shape (h e)"
  "e_collision_type (mark_all M h e) = e_collision_type (h e)"
  "marked_for_removal (mark_all M h e) \<longleftrightarrow> e \<in> M \<or> marked_for_removal (h e)"
  by (simp_all add: mark_all_def)

lemma wf_mid_after_contacts:
  assumes m: "wf_mid s" and coins: "\<And>e. e \<in> set es \<Longrightarrow> cls (entity_heap s e) = CoinEntity"
    and c: "cam_ok c"
  shows "wf_mid ((after_contacts (integrate out s) es H)\<lparr>camera := c\<rparr>)"
proof (rule wf_midI)
  let ?s = "(after_contacts (integrate out s) es H)\<lparr>camera := c\<rparr>"
  have f: "running ?s = running s" "camera ?s = c" "next_ref ?s = next_ref s"
    "entities ?s = entities s" "all_sprites ?s = all_sprites s" "space ?s = space s"
    "shape_heap ?s = shape_heap s" "controllable_object ?s = controllable_object s"
    "entity_heap ?s = mark_all (set es) (entity_heap s)"
    by (simp_all add: after_contacts_def integrate_def)
  show "running ?s" "cam_ok (camera ?s)" "5 < next_ref ?s" "distinct (entities ?s)"
    "all_sprites ?s = set (entities ?s)"
    unfolding f using wf_mid_running [OF m] c wf_mid_next [OF m] wf_mid_distinct [OF m]
      wf_mid_sprites [OF m] by simp_all
  show "entity_ok ?s e" if "e \<in> set (entities ?s)" for e
  proof -
    have e: "e \<in> set (entities s)" using that by (simp add: f)
    show ?thesis
      using wf_mid_entity [OF m e] coins [of e]
      unfolding entity_ok_def f Let_def by auto
  qed
  show "inj_on (\<lambda>e. e_body (entity_heap ?s e)) (set (entities ?s))"
    unfolding f using wf_mid_inj [OF m] by simp
  show "bodies (space ?s) = (\<lambda>e. e_body (entity_heap ?s e)) ` set (entities ?s)"
    unfolding f using wf_mid_bodies [OF m] by simp
  show "shapes (space ?s) = boundary_shapes \<union> (\<lambda>e. e_shape (entity_heap ?s e)) ` set (entities ?s)"
    unfolding f using wf_mid_shapes [OF m] by simp
  show "shape_heap ?s sh = \<lparr>shape_body = Some 0, collision_type = 0, parent_sprite = None\<rparr>"
    if "sh \<in> boundary_shapes" for sh
    unfolding f using wf_mid_boundary [OF m that] .
  show "j < next_ref ?s" if "j \<in> constraints (space ?s)" for j
    using that unfolding f by (rule wf_mid_constraints [OF m])
  show "c' \<in> set (entities ?s) \<and> cls (entity_heap ?s c') = ControllableEntity"
    if "controllable_object ?s = Some c'" for c'
    using wf_mid_controllable [OF m, of c'] that unfolding f by simp
  show "static_body (space ?s) = 0" unfolding f by (rule wf_mid_static [OF m])
qed

lemma wf_swept:
  assumes m: "wf_mid t"
  shows "wf_state (swept (entities t) t)"
proof -
  let ?M = "{e \<in> set (entities t). marked_for_removal (entity_heap t e)}"
  let ?d = "detach_all ?M t"
  let ?s = "swept (entities t) t"
  have ctl: "c \<notin> ?M" if "controllable_object t = Some c" for c
  proof
    assume "c \<in> ?M"
    then have "c \<in> set (entities t)" "marked_for_removal (entity_heap t c)" by simp_all
    then have "cls (entity_heap t c) = CoinEntity"
      using wf_mid_entity [OF m] by (simp add: entity_ok_def Let_def)
    then show False using wf_mid_controllable [OF m that] by simp
  qed
  have d: "wf_mid ?d" by (rule wf_mid_detach_all [OF m]) (auto dest: ctl)
  have f: "running ?s = running ?d" "camera ?s = camera ?d" "next_ref ?s = next_ref ?d"
    "entities ?s = entities ?d" "all_sprites ?s = all_sprites ?d" "space ?s = space ?d"
    "shape_heap ?s = shape_heap ?d" "controllable_object ?s = controllable_object ?d"
    "entity_heap ?s = sync_heap (entities t) t" "entity_heap ?d = entity_heap t"
    by (simp_all add: swept_def detach_all_def)
  have "wf_mid ?s"
  proof (rule wf_midI)
    show "running ?s" "cam_ok (camera ?s)" "5 < next_ref ?s" "distinct (entities ?s)"
      "all_sprites ?s = set (entities ?s)"
      unfolding f(1-5) using wf_mid_running [OF d] wf_mid_cam [OF d] wf_mid_next [OF d]
        wf_mid_distinct [OF d] wf_mid_sprites [OF d] by simp_all
    show "entity_ok ?s e" if "e \<in> set (entities ?s)" for e
    proof -
      have e: "e \<in> set (entities ?d)" using that by (simp only: f)
      show ?thesis
        using wf_mid_entity [OF d e] unfolding entity_ok_def f Let_def by simp
    qed
    show "inj_on (\<lambda>e. e_body (entity_heap ?s e)) (set (entities ?s))"
      using wf_mid_inj [OF d] unfolding f by simp
    show "bodies (space ?s) = (\<lambda>e. e_body (entity_heap ?s e)) ` set (entities ?s)"
      using wf_mid_bodies [OF d] unfolding f by simp
    show "shapes (space ?s)
        = boundary_shapes \<union> (\<lambda>e. e_shape (entity_heap ?s e)) ` set (entities ?s)"
      using wf_mid_shapes [OF d] unfolding f by simp
    show "shape_heap ?s sh = \<lparr>shape_body = Some 0, collision_type = 0, parent_sprite = None\<rparr>"
      if "sh \<in> boundary_shapes" for sh
      unfolding f using wf_mid_boundary [OF d that] .
    show "j < next_ref ?s" if "j \<in> constraints (space ?s)" for j
      using that unfolding f by (rule wf_mid_constraints [OF d])
    show "c' \<in> set (entities ?s) \<and> cls (entity_heap ?s c') = ControllableEntity"
      if "controllable_object ?s = Some c'" for c'
      using wf_mid_controllable [OF d, of c'] that unfolding f by simp
    show "static_body (space ?s) = 0" unfolding f by (rule wf_mid_static [OF d])
  qed
  moreover have "\<not> marked_for_removal (entity_heap ?s e)" if "e \<in> set (entities ?s)" for e
    using that by (simp add: swept_def detach_all_def)
  ultimately show ?thesis by (simp add: wf_state_def)
qed

lemma wf_trace: "wf_state s \<Longrightarrow> wf_state (s\<lparr>trace := tr\<rparr>)"
  unfolding wf_state_def wf_mid_def entity_ok_def Let_def by simp

lemma wf_render:
  assumes "wf_state s"
  shows "wf_state (render s)"
  unfolding render_eq [OF wf_mid_sprites [OF wf_wf_mid [OF assms]]]
  by (rule wf_trace [OF assms])


lemma steer_frame:
  assumes "controllable_object t = controllable_object s" and "all_sprites t = all_sprites s"
    and "pressed_keys t = pressed_keys s"
    and "\<And>e. e_body (entity_heap t e) = e_body (entity_heap s e)"
  shows "steer t = t\<lparr>trace := trace t @ trace (steer (s\<lparr>trace := []\<rparr>))\<rparr>"
proof (cases "controllable_object s")
  case None
  then show ?thesis using assms(1) by (simp add: steer_def)
next
  case (Some c)
  show ?thesis
  proof (cases "c \<in> all_sprites s")
    case False
    then show ?thesis using assms(1,2) Some by (simp add: steer_def)
  next
    case True
    define y where "y = (if ''s'' \<in> pressed_keys s
         then (if ''w'' \<in> pressed_keys s then 0 - 1 else 0) + 1
         else (if ''w'' \<in> pressed_keys s then 0 - 1 else (0::real)))"
    define x where "x = (if ''d'' \<in> pressed_keys s
         then (if ''a'' \<in> pressed_keys s then 0 - 1 else 0) + 1
         else (if ''a'' \<in> pressed_keys s then 0 - 1 else (0::real)))"
    have st: "steer u = (if x \<noteq> 0 \<or> y \<noteq> 0
        then apply_force c (x / sqrt (x ^ 2 + y ^ 2), y / sqrt (x ^ 2 + y ^ 2)) u else u)"
      if "controllable_object u = Some c" "c \<in> all_sprites u" "pressed_keys u = pressed_keys s"
      for u
      unfolding steer_def that(1) option.case Let_def x_def y_def that(3)
      using that(2) by (simp only: if_True)
    have 1: "steer t = (if x \<noteq> 0 \<or> y \<noteq> 0
        then apply_force c (x / sqrt (x ^ 2 + y ^ 2), y / sqrt (x ^ 2 + y ^ 2)) t else t)"
      by (rule st) (simp_all add: assms Some True)
    have 2: "steer (s\<lparr>trace := []\<rparr>) = (if x \<noteq> 0 \<or> y \<noteq> 0
        then apply_force c (x / sqrt (x ^ 2 + y ^ 2), y / sqrt (x ^ 2 + y ^ 2)) (s\<lparr>trace := []\<rparr>)
        else s\<lparr>trace := []\<rparr>)"
      by (rule st) (simp_all add: Some True)
    show ?thesis
      unfolding 1 2 by (simp add: apply_force_def emit_def Let_def assms(4))
  qed
qed

lemma steering_calls_cases:
  "steering_calls s = [] \<or> (\<exists>p fx fy. controllable_object s = Some p \<and> p \<in> all_sprites s
     \<and> steering_calls s = [ApplyForceAtLocalPoint (e_body (entity_heap s p)) (fx, fy) (0, 0)]
     \<and> fx ^ 2 + fy ^ 2 = force_magnitude ^ 2)"
proof -
  obtain F where e: "steer (s\<lparr>trace := []\<rparr>) = (s\<lparr>trace := []\<rparr>)\<lparr>trace := trace (s\<lparr>trace := []\<rparr>) @ F\<rparr>"
    and F: "F = [] \<or> (\<exists>p fx fy. controllable_object (s\<lparr>trace := []\<rparr>) = Some p
           \<and> p \<in> all_sprites (s\<lparr>trace := []\<rparr>)
           \<and> F = [ApplyForceAtLocalPoint (e_body (entity_heap (s\<lparr>trace := []\<rparr>) p)) (fx, fy) (0, 0)]
           \<and> fx ^ 2 + fy ^ 2 = force_magnitude ^ 2)"
    using steer_eq [of "s\<lparr>trace := []\<rparr>"] by blast
  have "steering_calls s = F" by (simp add: steering_calls_def e)
  then show ?thesis using F by simp
qed

lemma steering_calls_eq:
  "steering_calls s =
     (case controllable_object s of
        None \<Rightarrow> []
      | Some p \<Rightarrow>
          if p \<in> all_sprites s \<and> steering_direction (pressed_keys s) \<noteq> (0, 0)
          then [ApplyForceAtLocalPoint (e_body (entity_heap s p))
                  (vscale (normalized (steering_direction (pressed_keys s))) force_magnitude)
                  (0, 0)]
          else [])"
proof (cases "controllable_object s")
  case None
  then show ?thesis by (simp add: steering_calls_def steer_def)
next
  case (Some p)
  show ?thesis
  proof (cases "p \<in> all_sprites s")
    case False
    then show ?thesis by (simp add: steering_calls_def steer_def Some)
  next
    case True
    then show ?thesis
      by (simp add: steering_calls_def steer_def Some Let_def steering_direction_def
          key_axis_def normalized_def vlength_def vscale_def apply_force_def emit_def)
  qed
qed

lemma update_simulation_eq:
  assumes w: "wf_state s" and dl: "deliverable s (Tick out)"
  shows "\<exists>H c. update_simulation out s = Inr (ticked s out H c (steering_calls s))
     \<and> wf_state (ticked s out H c (steering_calls s))
     \<and> list_all is_impulse H \<and> cam_ok c
     \<and> c = panned_camera (pressed_keys s) (camera s)
     \<and> (begins out = [] \<longrightarrow> H = [])"
proof -
  note m = wf_wf_mid [OF w]
  let ?es = "collected s (begins out)"
  let ?F = "steering_calls s"
  have hb: "list_all (\<lambda>arb. has_body s (fst arb) \<and> has_body s (snd arb)) (begins out)"
    using dl wf_mid_has_body [OF m] by (auto simp: list_all_iff)
  obtain H where s1: "space_step TIME_STEP out s
      = Inr (after_contacts (integrate out s) ?es (Step TIME_STEP # H))"
    and H: "list_all is_impulse H" and H0: "begins out = [] \<longrightarrow> H = []"
    using space_step_eq [OF hb] by blast
  let ?s1 = "after_contacts (integrate out s) ?es (Step TIME_STEP # H)"
  define c where "c = panned_camera (pressed_keys s) (camera s)"
  have kc: "pressed_keys (emit HandleKeyboardInput ?s1) = pressed_keys s"
    "camera (emit HandleKeyboardInput ?s1) = camera s"
    by (simp_all add: emit_def after_contacts_def integrate_def)
  have ck: "cam_ok (camera (emit HandleKeyboardInput ?s1))"
    using wf_mid_cam [OF m] by (simp add: kc)
  have s2: "handle_keyboard_input (emit HandleKeyboardInput ?s1)
      = Inr ((emit HandleKeyboardInput ?s1)\<lparr>camera := c\<rparr>)"
    using handle_keyboard_input_eq(1) [OF ck] unfolding kc c_def .
  have c: "cam_ok c"
    using handle_keyboard_input_eq(2) [OF ck] unfolding kc c_def .
  let ?s2 = "(emit HandleKeyboardInput ?s1)\<lparr>camera := c\<rparr>"
  have s3: "steer ?s2 = ?s2\<lparr>trace := trace ?s2 @ ?F\<rparr>"
    unfolding steering_calls_def
    by (rule steer_frame) (simp_all add: emit_def after_contacts_def integrate_def)
  let ?s3 = "(after_contacts (integrate out s) ?es
      (Step TIME_STEP # H @ HandleKeyboardInput # ?F))\<lparr>camera := c\<rparr>"
  have e3: "?s2\<lparr>trace := trace ?s2 @ ?F\<rparr> = ?s3"
    by (simp add: emit_def after_contacts_def)
  have m3: "wf_mid ?s3"
    by (rule wf_mid_after_contacts [OF m _ c]) (rule collected_coin)
  have en: "entities ?s3 = entities s" by (simp add: after_contacts_def integrate_def)
  have s4: "for_each update_entity (entities s) ?s3 = Inr (swept (entities s) ?s3)"
    using for_each_update_entity [OF wf_mid_distinct [OF m3], of "entities ?s3"]
    unfolding en .
  have r: "update_simulation out s = Inr (ticked s out H c ?F)"
    unfolding update_simulation_def ticked_def
    using wf_mid_running [OF m]
    by (simp only: s1 s2 s3 e3 s4 thenR_simps if_False not_True_eq_False simp_thms en)
  have wt: "wf_state (ticked s out H c ?F)"
    unfolding ticked_def en [symmetric] by (rule wf_render [OF wf_swept [OF m3]])
  show ?thesis using r wt H c c_def H0 by blast
qed

lemma wf_SimulationApp_init:
  "\<exists>s. SimulationApp_init = Inr s \<and> wf_state s"
proof -
  define s where "s = new_app\<lparr>next_ref := 6,
      shape_heap := (shape_heap new_app)(1 := \<lparr>shape_body = Some 0, collision_type = 0, parent_sprite = None\<rparr>,
         2 := \<lparr>shape_body = Some 0, collision_type = 0, parent_sprite = None\<rparr>,
         3 := \<lparr>shape_body = Some 0, collision_type = 0, parent_sprite = None\<rparr>,
         4 := \<lparr>shape_body = Some 0, collision_type = 0, parent_sprite = None\<rparr>),
      space := (space new_app)\<lparr>shapes := {1, 2, 3, 4}\<rparr>,
      mouse_body := 5,
      body_heap := (body_heap new_app)(5 := \<lparr>position = (0, 0), angle = 0, body_type = KINEMATIC\<rparr>),
      running := True\<rparr>"
  have "SimulationApp_init = Inr s"
    by (simp add: SimulationApp_init_def add_boundaries_def new_app_def Let_def space_ops s_def
        eval_nat_numeral insert_commute)
  moreover have "wf_state s"
    by (simp add: wf_state_def wf_mid_def s_def new_app_def cam_ok_def Camera_def boundary_shapes_def)
  ultimately show ?thesis by blast
qed

lemma wf_handle:
  assumes w: "wf_state s" and dl: "deliverable s ev"
  shows "\<exists>s'. handle ev s = Inr s' \<and> wf_state s'"
proof (cases ev)
  case (MousePress q p)
  then show ?thesis using wf_on_mouse_press [OF w] by simp
next
  case MouseRelease
  then show ?thesis using wf_on_mouse_release [OF w] by simp
next
  case (RightClick p)
  then show ?thesis using wf_on_right_click [OF w] by simp
next
  case (MouseMotion p)
  then show ?thesis using wf_on_mouse_motion [OF w] by simp
next
  case (MouseWheel d dir)
  then show ?thesis using wf_on_mouse_wheel [OF w] by simp
next
  case (KeyPress k)
  then show ?thesis using wf_keys [OF w] by (simp add: on_key_press_def)
next
  case (KeyRelease k)
  then show ?thesis using wf_keys [OF w] by (simp add: on_key_release_def)
next
  case AddPlayerButton
  then show ?thesis using wf_add_player_gui [OF w] by simp
next
  case (AddObjectButton t)
  then show ?thesis using wf_add_object_at_mouse_center [OF w] by simp
next
  case ResetButton
  then show ?thesis using wf_reset [OF w] by auto
next
  case DebugDrawButton
  then show ?thesis using wf_toggle_debug_draw [OF w] by simp
next
  case (GravityXSlider v)
  then show ?thesis using wf_gravity [OF w] by (simp add: update_gravity_x_def)
next
  case (GravityYSlider v)
  then show ?thesis using wf_gravity [OF w] by (simp add: update_gravity_y_def)
next
  case (Tick out)
  then show ?thesis using update_simulation_eq [OF w] dl by auto
qed

lemma reachable_wf: "reachable s \<Longrightarrow> wf_state s"
proof (induction rule: reachable.induct)
  case (init s)
  obtain s0 where s0: "SimulationApp_init = Inr s0" and w0: "wf_state s0"
    using wf_SimulationApp_init by blast
  have "Inr s = (Inr s0 :: error + app)" using init [symmetric] s0 by (rule trans)
  then show ?case using w0 by simp
next
  case (step s ev s')
  then show ?case using wf_handle [OF step.IH step.hyps(2)] by simp
qed

lemma reachable_progress:
  assumes "reachable s" and "deliverable s ev"
  shows "\<exists>s'. handle ev s = Inr s' \<and> reachable s'"
proof -
  obtain s' where "handle ev s = Inr s'"
    using wf_handle [OF reachable_wf [OF assms(1)] assms(2)] by blast
  then show ?thesis using reachable.step [OF assms] by blast
qed

section \<open>Runs of events\<close>

lemma for_each_append:
  "for_each f (xs @ ys) s = thenR (for_each f xs s) (for_each f ys)"
proof (induction xs arbitrary: s)
  case Nil
  show ?case by simp
next
  case (Cons x xs)
  show ?case
  proof (cases "f x s")
    case (Inl e)
    then show ?thesis by simp
  next
    case (Inr s1)
    then show ?thesis by (simp add: Cons.IH)
  qed
qed

lemma thenR_assoc: "thenR (thenR m f) g = thenR m (\<lambda>x. thenR (f x) g)"
  by (cases m) simp_all

lemma run_append: "run (evs @ evs') = thenR (run evs) (for_each handle evs')"
proof -
  have "for_each handle (evs @ evs') = (\<lambda>s. thenR (for_each handle evs s) (for_each handle evs'))"
    by (rule ext) (rule for_each_append)
  then show ?thesis by (simp add: run_def thenR_assoc)
qed

lemma deliverable_untimed: "\<not> is_tick ev \<Longrightarrow> deliverable s ev"
  by (cases ev) simp_all

lemma is_spawn_untimed: "is_spawn ev \<Longrightarrow> \<not> is_tick ev"
  by (cases ev) simp_all

lemma for_each_handle_reachable:
  assumes "reachable s" and "list_all (\<lambda>ev. \<not> is_tick ev) evs"
  shows "\<exists>s'. for_each handle evs s = Inr s' \<and> reachable s'"
  using assms
proof (induction evs arbitrary: s)
  case Nil
  then show ?case by simp
next
  case (Cons ev evs)
  have "deliverable s ev" using Cons.prems(2) by (simp add: deliverable_untimed)
  then obtain s1 where s1: "handle ev s = Inr s1" and r1: "reachable s1"
    using reachable_progress [OF Cons.prems(1)] by blast
  have "list_all (\<lambda>ev. \<not> is_tick ev) evs" using Cons.prems(2) by simp
  then obtain s' where "for_each handle evs s1 = Inr s'" and "reachable s'"
    using Cons.IH [OF r1] by blast
  then show ?case using s1 by simp
qed

lemma run_reachable:
  assumes "list_all (\<lambda>ev. \<not> is_tick ev) evs"
  shows "\<exists>s. run evs = Inr s \<and> reachable s"
proof -
  obtain s0 where s0: "SimulationApp_init = Inr s0"
    using wf_SimulationApp_init by blast
  then have "reachable s0" by (rule reachable.init)
  then show ?thesis
    using for_each_handle_reachable [OF _ assms] by (simp add: run_def s0)
qed

text \<open>
  C6. In every reachable state, however many entities of whatever classes have been
  spawned and whatever ticks, contacts and camera events have happened since the start,
  \<open>reset_simulation\<close> succeeds and leaves no registered entity, no live sprite,
  score 0, the camera at pan (0, 0) and zoom 1.0, no body in the space and no shape in
  the space other than the four boundary segments; every entity registered before the
  reset had its body and its shape in the space, and has neither in it afterwards.
\<close>

theorem reset_after_spawning:
  assumes "reachable s"
  shows "\<exists>s'. reset_simulation s = Inr s' \<and> handle ResetButton s = Inr s' \<and> reachable s'
     \<and> length (entities s') = 0 \<and> all_sprites s' = {} \<and> score s' = 0
     \<and> offset_x (camera s') = 0 \<and> offset_y (camera s') = 0 \<and> zoom (camera s') = 1.0
     \<and> bodies (space s') = {} \<and> shapes (space s') = boundary_shapes
     \<and> (\<forall>e\<in>set (entities s).
           e_body (entity_heap s e) \<in> bodies (space s)
         \<and> e_shape (entity_heap s e) \<in> shapes (space s)
         \<and> e_body (entity_heap s e) \<notin> bodies (space s')
         \<and> e_shape (entity_heap s e) \<notin> shapes (space s'))"
proof -
  note w = reachable_wf [OF assms]
  note m = wf_wf_mid [OF w]
  obtain s' where s': "reset_simulation s = Inr s'" and e: "entities s' = []"
    and rest: "score s' = 0" "offset_x (camera s') = 0" "offset_y (camera s') = 0"
      "zoom (camera s') = 1.0" "bodies (space s') = {}" "shapes (space s') = boundary_shapes"
    using wf_reset [OF w] by blast
  have h: "handle ResetButton s = Inr s'" using s' by simp
  have d: "deliverable s ResetButton" by simp
  have r': "reachable s'" by (rule reachable.step [OF assms d h])
  have sp: "all_sprites s' = {}"
    using wf_mid_sprites [OF wf_wf_mid [OF reachable_wf [OF r']]] e by simp
  have each: "e_body (entity_heap s x) \<in> bodies (space s)
         \<and> e_shape (entity_heap s x) \<in> shapes (space s)
         \<and> e_body (entity_heap s x) \<notin> bodies (space s')
         \<and> e_shape (entity_heap s x) \<notin> shapes (space s')" if x: "x \<in> set (entities s)" for x
  proof -
    have "e_body (entity_heap s x) \<in> bodies (space s)"
      using x by (simp add: wf_mid_bodies [OF m])
    moreover have "e_shape (entity_heap s x) \<in> shapes (space s)"
      using x by (simp add: wf_mid_shapes [OF m])
    moreover have "e_shape (entity_heap s x) \<notin> boundary_shapes"
      using entity_shape_not_boundary [OF wf_mid_entity [OF m x]] .
    ultimately show ?thesis by (simp add: rest)
  qed
  show ?thesis using s' h r' e sp rest each by simp
qed


text \<open>
  A player, a coin and a ball are spawned, the view zoomed in once, the right arrow held
  and the coin collected in a tick: the score is 10, the zoom 1.05 and the pan 100/7
  before the reset.
\<close>

lemma played_state_before_tick:
  "\<exists>s. run [AddPlayerButton, AddObjectButton ''coin'', AddObjectButton ''ball'',
             MouseWheel 1 None, KeyPress ''right''] = Inr s
     \<and> shapes (space s) = {1, 2, 3, 4, 8, 11, 14}"
  by (simp add: run_def SimulationApp_init_def add_boundaries_def new_app_def Let_def space_ops
      SCREEN_WIDTH_def SCREEN_HEIGHT_def add_player_gui_def ControllableEntity_init_def
      Entity_init_def screen_to_world_def Camera_def view_centre_def
      add_object_at_mouse_center_def add_object_at_pos_def CoinEntity_init_def
      on_mouse_wheel_def zoom_in_def on_key_press_def
      eval_nat_numeral insert_commute)

lemma played_state:
  "\<exists>s. run [AddPlayerButton, AddObjectButton ''coin'', AddObjectButton ''ball'',
             MouseWheel 1 None, KeyPress ''right'',
             Tick \<lparr>poses = (\<lambda>_. None), begins = [(8, 11)]\<rparr>] = Inr s
     \<and> score s = 10 \<and> zoom (camera s) = 21 / 20 \<and> offset_x (camera s) = 100 / 7
     \<and> entities s = [6, 12] \<and> bodies (space s) = {7, 13}
     \<and> shapes (space s) = {1, 2, 3, 4, 8, 14}"
  by (simp add: run_def SimulationApp_init_def add_boundaries_def new_app_def Let_def space_ops
      SCREEN_WIDTH_def SCREEN_HEIGHT_def add_player_gui_def ControllableEntity_init_def
      Entity_init_def screen_to_world_def Camera_def view_centre_def
      add_object_at_mouse_center_def add_object_at_pos_def CoinEntity_init_def
      on_mouse_wheel_def zoom_in_def on_key_press_def lower_def lower_char_def
      update_simulation_def space_step_def integrate_def emit_def collision_begin_def
      player_collect_coin_begin_def on_collected_def coin_value_def
      handle_keyboard_input_def pan_def
      steer_def apply_force_def force_magnitude_def update_entity_def Entity_update_def
      kill_entity_def list_remove_def
      render_def Entity_draw_def TIME_STEP_def FPS_def COLLISION_TYPE_PLAYER_def
      COLLISION_TYPE_COIN_def COLLISION_TYPE_BOX_def COLLISION_TYPE_BOUNCER_def
      eval_nat_numeral insert_commute insert_Diff_if)

theorem reset_after_spawning_witness:
  "\<exists>s. run [AddPlayerButton, AddObjectButton ''coin'', AddObjectButton ''ball'',
             MouseWheel 1 None, KeyPress ''right'',
             Tick \<lparr>poses = (\<lambda>_. None), begins = [(8, 11)]\<rparr>] = Inr s
     \<and> reachable s
     \<and> score s = 10 \<and> zoom (camera s) = 21 / 20 \<and> offset_x (camera s) = 100 / 7
     \<and> entities s = [6, 12] \<and> bodies (space s) = {7, 13}
     \<and> shapes (space s) = {1, 2, 3, 4, 8, 14}
     \<and> (\<exists>s'. reset_simulation s = Inr s' \<and> reachable s'
          \<and> length (entities s') = 0 \<and> all_sprites s' = {} \<and> score s' = 0
          \<and> offset_x (camera s') = 0 \<and> offset_y (camera s') = 0 \<and> zoom (camera s') = 1.0
          \<and> bodies (space s') = {} \<and> shapes (space s') = boundary_shapes)"
proof -
  let ?evs = "[AddPlayerButton, AddObjectButton ''coin'', AddObjectButton ''ball'',
             MouseWheel 1 None, KeyPress ''right'']"
  let ?out = "\<lparr>poses = (\<lambda>_. None), begins = [(8::nat, 11::nat)]\<rparr> :: step_outcome"
  obtain s1 where s1: "run ?evs = Inr s1" and sh: "shapes (space s1) = {1, 2, 3, 4, 8, 11, 14}"
    using played_state_before_tick by blast
  have "list_all (\<lambda>ev. \<not> is_tick ev) ?evs" by simp
  then obtain s0 where "run ?evs = Inr s0" and "reachable s0"
    using run_reachable by blast
  then have r1: "reachable s1" using s1 by simp
  have d: "deliverable s1 (Tick ?out)" by (simp add: sh)
  obtain s where h: "handle (Tick ?out) s1 = Inr s" and r: "reachable s"
    using reachable_progress [OF r1 d] by blast
  have "run (?evs @ [Tick ?out]) = Inr s"
    unfolding run_append s1 using h by simp
  then have run: "run [AddPlayerButton, AddObjectButton ''coin'', AddObjectButton ''ball'',
             MouseWheel 1 None, KeyPress ''right'', Tick ?out] = Inr s" by simp
  have f: "score s = 10 \<and> zoom (camera s) = 21 / 20 \<and> offset_x (camera s) = 100 / 7
     \<and> entities s = [6, 12] \<and> bodies (space s) = {7, 13}
     \<and> shapes (space s) = {1, 2, 3, 4, 8, 14}"
    using played_state run by auto
  show ?thesis using run r f reset_after_spawning [OF r] by blast
qed

text \<open>
  C10. In every reachable state \<open>reset_simulation\<close> succeeds and changes only the
  registry, the sprite group, the controllable object, the score, the camera's pan and
  zoom, and the space's bodies and shapes: the gravity vector, the constraints and the
  static body are left as they were, and the four boundary segments, attached to the
  space's static body, are still in the space.
\<close>

theorem reset_simulation_frame:
  assumes "reachable s"
  shows "\<exists>s'. reset_simulation s = Inr s'
     \<and> gravity (space s') = gravity (space s)
     \<and> constraints (space s') = constraints (space s)
     \<and> static_body (space s') = static_body (space s)
     \<and> boundary_shapes \<subseteq> shapes (space s) \<and> boundary_shapes \<subseteq> shapes (space s')
     \<and> (\<forall>sh\<in>boundary_shapes. shape_heap s' sh =
           \<lparr>shape_body = Some (static_body (space s')), collision_type = 0, parent_sprite = None\<rparr>)
     \<and> s' = s\<lparr>space := (space s)\<lparr>bodies := {}, shapes := boundary_shapes\<rparr>,
               all_sprites := {}, entities := [], controllable_object := None, score := 0,
               camera := (camera s)\<lparr>offset_x := 0, offset_y := 0, zoom := 1.0\<rparr>\<rparr>"
proof -
  note w = reachable_wf [OF assms]
  note m = wf_wf_mid [OF w]
  obtain s' where r: "reset_simulation s = Inr s'"
    and b: "bodies (space s') = {}" and sh: "shapes (space s') = boundary_shapes"
    using wf_reset [OF w] by blast
  have eq: "s' = s\<lparr>space := (space s)\<lparr>
               bodies := bodies (space s) - (\<lambda>e. e_body (entity_heap s e)) ` set (entities s),
               shapes := shapes (space s) - (\<lambda>e. e_shape (entity_heap s e)) ` set (entities s)\<rparr>,
            all_sprites := all_sprites s - set (entities s),
            entities := [],
            controllable_object := None,
            score := 0,
            camera := (camera s)\<lparr>offset_x := 0, offset_y := 0, zoom := 1.0\<rparr>\<rparr>"
    using r unfolding reset_simulation_eq by simp
  have b': "bodies (space s) - (\<lambda>e. e_body (entity_heap s e)) ` set (entities s) = {}"
    using b unfolding eq by simp
  have sh': "shapes (space s) - (\<lambda>e. e_shape (entity_heap s e)) ` set (entities s) = boundary_shapes"
    using sh unfolding eq by simp
  have sp: "all_sprites s - set (entities s) = {}" by (simp add: wf_mid_sprites [OF m])
  have fr: "s' = s\<lparr>space := (space s)\<lparr>bodies := {}, shapes := boundary_shapes\<rparr>,
               all_sprites := {}, entities := [], controllable_object := None, score := 0,
               camera := (camera s)\<lparr>offset_x := 0, offset_y := 0, zoom := 1.0\<rparr>\<rparr>"
    unfolding eq b' sh' sp ..
  have sub: "boundary_shapes \<subseteq> shapes (space s)" by (simp add: wf_mid_shapes [OF m])
  have st: "static_body (space s) = 0" by (rule wf_mid_static [OF m])
  have bh: "shape_heap s' sh =
      \<lparr>shape_body = Some (static_body (space s')), collision_type = 0, parent_sprite = None\<rparr>"
    if "sh \<in> boundary_shapes" for sh
    using wf_mid_boundary [OF m that] st by (simp add: fr)
  have "gravity (space s') = gravity (space s) \<and> constraints (space s') = constraints (space s)
     \<and> static_body (space s') = static_body (space s) \<and> boundary_shapes \<subseteq> shapes (space s')"
    by (simp add: fr)
  then show ?thesis using r sub bh fr by blast
qed

theorem reset_simulation_frame_witness:
  "\<exists>s. run [GravityXSlider 5, AddObjectButton ''box'', AddPlayerButton] = Inr s \<and> reachable s
     \<and> (\<exists>s'. reset_simulation s = Inr s'
     \<and> gravity (space s') = gravity (space s)
     \<and> constraints (space s') = constraints (space s)
     \<and> static_body (space s') = static_body (space s)
     \<and> boundary_shapes \<subseteq> shapes (space s) \<and> boundary_shapes \<subseteq> shapes (space s')
     \<and> (\<forall>sh\<in>boundary_shapes. shape_heap s' sh =
           \<lparr>shape_body = Some (static_body (space s')), collision_type = 0, parent_sprite = None\<rparr>)
     \<and> s' = s\<lparr>space := (space s)\<lparr>bodies := {}, shapes := boundary_shapes\<rparr>,
               all_sprites := {}, entities := [], controllable_object := None, score := 0,
               camera := (camera s)\<lparr>offset_x := 0, offset_y := 0, zoom := 1.0\<rparr>\<rparr>)"
proof -
  have "list_all (\<lambda>ev. \<not> is_tick ev) [GravityXSlider 5, AddObjectButton ''box'', AddPlayerButton]"
    by simp
  then obtain s where s: "run [GravityXSlider 5, AddObjectButton ''box'', AddPlayerButton] = Inr s"
    and r: "reachable s"
    using run_reachable by blast
  show ?thesis using s r reset_simulation_frame [OF r] by blast
qed

text \<open>
  C7. In every reachable state, a press at screen position P converts P to the world
  position W and asks the space's nearest-point query at W with radius 0. The space's
  constraint set changes if and only if the query returns a shape whose body is
  DYNAMIC; then exactly one new pivot joint, between the mouse body and that body,
  anchored at the body's local coordinates of W, is added and becomes the mouse joint.
  Otherwise (no shape, or a body that is not DYNAMIC) the state is unchanged.
\<close>

theorem on_mouse_press_creates_joint_iff:
  assumes "reachable s"
  shows "\<exists>W s'. screen_to_world (camera s) (as_screen_pos P) = Inr W
     \<and> on_mouse_press q P s = Inr s'
     \<and> ((\<exists>sh b. q W 0 = Some (Some sh) \<and> shape_body (shape_heap s sh) = Some b
                 \<and> body_type (body_heap s b) = DYNAMIC)
          \<longleftrightarrow> constraints (space s') \<noteq> constraints (space s))
     \<and> (\<forall>sh b. q W 0 = Some (Some sh) \<and> shape_body (shape_heap s sh) = Some b
                 \<and> body_type (body_heap s b) = DYNAMIC
          \<longrightarrow> next_ref s \<notin> constraints (space s)
              \<and> constraints (space s') = insert (next_ref s) (constraints (space s))
              \<and> mouse_joint s' = Some (next_ref s) \<and> selected_shape_drag s' = Some sh
              \<and> joint_a (joint_heap s' (next_ref s)) = mouse_body s
              \<and> joint_b (joint_heap s' (next_ref s)) = b
              \<and> anchor_b (joint_heap s' (next_ref s)) = world_to_local (body_heap s b) W)
     \<and> (\<not> (\<exists>sh b. q W 0 = Some (Some sh) \<and> shape_body (shape_heap s sh) = Some b
                 \<and> body_type (body_heap s b) = DYNAMIC)
          \<longrightarrow> s' = s)"
proof -
  note m = wf_wf_mid [OF reachable_wf [OF assms]]
  obtain W where W: "screen_to_world (camera s) (as_screen_pos P) = Inr W"
    using screen_to_world_ok [OF wf_mid_cam [OF m]] by blast
  have f: "next_ref s \<notin> constraints (space s)"
    using wf_mid_constraints [OF m, of "next_ref s"] by auto
  have run: "running s" by (rule wf_mid_running [OF m])
  let ?hit = "\<exists>sh b. q W 0 = Some (Some sh) \<and> shape_body (shape_heap s sh) = Some b
                 \<and> body_type (body_heap s b) = DYNAMIC"
  show ?thesis
  proof (cases ?hit)
    case True
    then obtain sh b where h: "q W 0 = Some (Some sh)" "shape_body (shape_heap s sh) = Some b"
      "body_type (body_heap s b) = DYNAMIC" by blast
    define s' where "s' = s\<lparr>selected_shape_drag := Some sh,
        joint_heap := (joint_heap s)(next_ref s :=
          \<lparr>joint_a = mouse_body s, joint_b = b, anchor_a = (0, 0),
           anchor_b = world_to_local (body_heap s b) W,
           max_force = 700000 * zoom (camera s), error_bias = (1.0 - 0.15) ^ 60\<rparr>),
        next_ref := next_ref s + 1,
        space := (space s)\<lparr>constraints := insert (next_ref s) (constraints (space s))\<rparr>,
        mouse_joint := Some (next_ref s)\<rparr>"
    have p: "on_mouse_press q P s = Inr s'"
      using run f h by (simp add: on_mouse_press_def W Let_def space_add_constraint_def s'_def)
    have c: "constraints (space s') = insert (next_ref s) (constraints (space s))"
      by (simp add: s'_def)
    have ne: "constraints (space s') \<noteq> constraints (space s)" using f c by auto
    have d: "mouse_joint s' = Some (next_ref s) \<and> selected_shape_drag s' = Some sh
              \<and> joint_a (joint_heap s' (next_ref s)) = mouse_body s
              \<and> joint_b (joint_heap s' (next_ref s)) = b
              \<and> anchor_b (joint_heap s' (next_ref s)) = world_to_local (body_heap s b) W"
      by (simp add: s'_def)
    have "\<forall>sh' b'. q W 0 = Some (Some sh') \<and> shape_body (shape_heap s sh') = Some b'
                 \<and> body_type (body_heap s b') = DYNAMIC
          \<longrightarrow> next_ref s \<notin> constraints (space s)
              \<and> constraints (space s') = insert (next_ref s) (constraints (space s))
              \<and> mouse_joint s' = Some (next_ref s) \<and> selected_shape_drag s' = Some sh'
              \<and> joint_a (joint_heap s' (next_ref s)) = mouse_body s
              \<and> joint_b (joint_heap s' (next_ref s)) = b'
              \<and> anchor_b (joint_heap s' (next_ref s)) = world_to_local (body_heap s b') W"
      using h f c d by auto
    then show ?thesis using W p True ne by blast
  next
    case False
    have "on_mouse_press q P s = Inr s"
      using run False
      by (auto simp add: on_mouse_press_def W Let_def split: option.split)
    then show ?thesis using W False by blast
  qed
qed


lemma one_ball_state:
  "\<exists>s. run [RightClick (100, 100)] = Inr s \<and> next_ref s = 9
     \<and> constraints (space s) = {}
     \<and> body_type (body_heap s 7) = DYNAMIC \<and> shape_body (shape_heap s 8) = Some 7"
  by (simp add: run_def SimulationApp_init_def add_boundaries_def new_app_def Let_def space_ops
      SCREEN_WIDTH_def SCREEN_HEIGHT_def on_right_click_def add_object_at_click_def
      add_object_at_pos_def Entity_init_def screen_to_world_def Camera_def as_screen_pos_def)

theorem on_mouse_press_creates_joint_iff_witness:
  "\<exists>s s'. run [RightClick (100, 100)] = Inr s \<and> reachable s
     \<and> on_mouse_press (\<lambda>w r. if r = 0 then Some (Some 8) else None) (100, 100) s = Inr s'
     \<and> constraints (space s) = {} \<and> constraints (space s') = {9}
     \<and> mouse_joint s' = Some 9 \<and> joint_b (joint_heap s' 9) = 7"
proof -
  obtain s where s: "run [RightClick (100, 100)] = Inr s" and n: "next_ref s = 9"
    and c: "constraints (space s) = {}"
    and d: "body_type (body_heap s 7) = DYNAMIC" "shape_body (shape_heap s 8) = Some 7"
    using one_ball_state by blast
  have "list_all (\<lambda>ev. \<not> is_tick ev) [RightClick (100, 100)]" by simp
  then obtain s0 where "run [RightClick (100, 100)] = Inr s0" and "reachable s0"
    using run_reachable by blast
  then have r: "reachable s" using s by simp
  let ?q = "\<lambda>(w::vec) (r::real). if r = 0 then Some (Some (8::nat)) else None"
  obtain W s' where p: "on_mouse_press ?q (100, 100) s = Inr s'"
    and h: "\<forall>sh b. ?q W 0 = Some (Some sh) \<and> shape_body (shape_heap s sh) = Some b
                 \<and> body_type (body_heap s b) = DYNAMIC
          \<longrightarrow> next_ref s \<notin> constraints (space s)
              \<and> constraints (space s') = insert (next_ref s) (constraints (space s))
              \<and> mouse_joint s' = Some (next_ref s) \<and> selected_shape_drag s' = Some sh
              \<and> joint_a (joint_heap s' (next_ref s)) = mouse_body s
              \<and> joint_b (joint_heap s' (next_ref s)) = b
              \<and> anchor_b (joint_heap s' (next_ref s)) = world_to_local (body_heap s b) W"
    using on_mouse_press_creates_joint_iff [OF r, of "(100, 100)" ?q] by blast
  have "constraints (space s') = {9} \<and> mouse_joint s' = Some 9 \<and> joint_b (joint_heap s' 9) = 7"
    using h [rule_format, of 8 7] d by (simp add: n c)
  then show ?thesis using s r p c by blast
qed

section \<open>Idempotent removal\<close>

text \<open>
  C8. \<open>kill_entity\<close> never raises: it returns a state in which the entity's body and
  shape are absent from the space and the sprite is dead, every other body, shape and
  constraint, the registry and the heaps being untouched; called again on that state
  (body and shape already absent) it returns the state unchanged. Likewise
  \<open>on_mouse_release\<close> never raises, releasing twice is the same as releasing once,
  and releasing when the mouse joint is no longer in the space's constraint set leaves
  the state unchanged.
\<close>

theorem removal_is_idempotent:
  "(\<exists>s1. kill_entity e s = Inr s1 \<and> kill_entity e s1 = Inr s1
         \<and> bodies (space s1) = bodies (space s) - {e_body (entity_heap s e)}
         \<and> shapes (space s1) = shapes (space s) - {e_shape (entity_heap s e)}
         \<and> constraints (space s1) = constraints (space s)
         \<and> entities s1 = entities s
         \<and> all_sprites s1 = all_sprites s - {e}
         \<and> entity_heap s1 = entity_heap s \<and> body_heap s1 = body_heap s
         \<and> shape_heap s1 = shape_heap s \<and> score s1 = score s)
   \<and> (\<exists>s2. on_mouse_release s = Inr s2 \<and> on_mouse_release s2 = Inr s2)
   \<and> on_mouse_release (s\<lparr>mouse_joint := Some j,
                           space := (space s)\<lparr>constraints := constraints (space s) - {j}\<rparr>\<rparr>)
       = Inr (s\<lparr>mouse_joint := Some j,
                space := (space s)\<lparr>constraints := constraints (space s) - {j}\<rparr>\<rparr>)"
proof -
  define s1 where "s1 = s\<lparr>space := (space s)\<lparr>bodies := bodies (space s) - {e_body (entity_heap s e)},
                              shapes := shapes (space s) - {e_shape (entity_heap s e)}\<rparr>,
            all_sprites := all_sprites s - {e}\<rparr>"
  have k1: "kill_entity e s = Inr s1" by (simp add: kill_entity_eq s1_def)
  have k2: "kill_entity e s1 = Inr s1" by (simp add: kill_entity_eq s1_def)
  have fr: "bodies (space s1) = bodies (space s) - {e_body (entity_heap s e)}
         \<and> shapes (space s1) = shapes (space s) - {e_shape (entity_heap s e)}
         \<and> constraints (space s1) = constraints (space s)
         \<and> entities s1 = entities s
         \<and> all_sprites s1 = all_sprites s - {e}
         \<and> entity_heap s1 = entity_heap s \<and> body_heap s1 = body_heap s
         \<and> shape_heap s1 = shape_heap s \<and> score s1 = score s"
    by (simp add: s1_def)
  have r: "\<exists>s2. on_mouse_release s = Inr s2 \<and> on_mouse_release s2 = Inr s2"
  proof (cases "running s \<and> (\<exists>j. mouse_joint s = Some j \<and> j \<in> constraints (space s))")
    case True
    then obtain j where j: "running s" "mouse_joint s = Some j" "j \<in> constraints (space s)" by blast
    then show ?thesis by (simp add: on_mouse_release_def space_remove_constraint_def)
  next
    case False
    then have "on_mouse_release s = Inr s"
      by (auto simp add: on_mouse_release_def split: option.splits)
    then show ?thesis by simp
  qed
  have st: "on_mouse_release (s\<lparr>mouse_joint := Some j,
                           space := (space s)\<lparr>constraints := constraints (space s) - {j}\<rparr>\<rparr>)
       = Inr (s\<lparr>mouse_joint := Some j,
                space := (space s)\<lparr>constraints := constraints (space s) - {j}\<rparr>\<rparr>)"
    by (simp add: on_mouse_release_def)
  show ?thesis using k1 k2 fr r st by blast
qed

section \<open>The order of a tick\<close>

lemma vlength_normalized:
  assumes "d \<noteq> (0, 0)"
  shows "0 < vlength d" and "vlength (normalized d) = 1"
    and "normalized d = vscale d (1 / vlength d)"
proof -
  obtain x y where d: "d = (x, y)" by (cases d)
  have nz: "x \<noteq> 0 \<or> y \<noteq> 0" using assms d by simp
  then have pos: "0 < x * x + y * y"
    using sum_power2_gt_zero_iff [of x y] by (simp add: power2_eq_square)
  then show l: "0 < vlength d" by (simp add: vlength_def d)
  then have ne: "vlength d \<noteq> 0" by simp
  have n: "normalized d = (x / vlength d, y / vlength d)"
    using ne unfolding d by (simp add: normalized_def Let_def)
  show "normalized d = vscale d (1 / vlength d)" unfolding n by (simp add: vscale_def d)
  have sq: "vlength d * vlength d = x * x + y * y"
    using pos by (simp add: vlength_def d)
  have "x / vlength d * (x / vlength d) + y / vlength d * (y / vlength d)
      = (x * x + y * y) / (vlength d * vlength d)"
    by (simp add: add_divide_distrib)
  also have "\<dots> = 1" using nz by (auto simp: sq)
  finally show "vlength (normalized d) = 1" by (simp add: vlength_def n)
qed


lemma ticked_facts:
  fixes s :: app and out :: step_outcome and H F :: "call list" and c :: camera
  assumes w: "wf_state s" and c: "cam_ok c"
  defines "s' \<equiv> ticked s out H c F" and "es \<equiv> collected s (begins out)"
  shows "trace s' = trace s @ Step TIME_STEP # H @ HandleKeyboardInput # F
            @ map Update (entities s) @ ClearSurface # map Draw (entities s') @ [UpdateCanvas]"
    and "entities s' = filter (\<lambda>e. e \<notin> set es) (entities s)"
    and "score s' = score s + coin_value * int (length es)"
    and "\<And>e. marked_for_removal (entity_heap s' e) \<longleftrightarrow> e \<in> set es \<or> marked_for_removal (entity_heap s e)"
    and "bodies (space s') = bodies (space s) - (\<lambda>e. e_body (entity_heap s e)) ` (set es \<inter> set (entities s))"
    and "shapes (space s') = shapes (space s) - (\<lambda>e. e_shape (entity_heap s e)) ` (set es \<inter> set (entities s))"
    and "all_sprites s' = set (entities s')"
    and "\<And>e. e_body (entity_heap s' e) = e_body (entity_heap s e)"
    and "\<And>e. e_shape (entity_heap s' e) = e_shape (entity_heap s e)"
    and "\<And>e. cls (entity_heap s' e) = cls (entity_heap s e)"
    and "camera s' = c"
proof -
  note m = wf_wf_mid [OF w]
  define s3 where "s3 = (after_contacts (integrate out s) es
      (Step TIME_STEP # H @ HandleKeyboardInput # F))\<lparr>camera := c\<rparr>"
  define t where "t = swept (entities s) s3"
  have m3: "wf_mid s3"
    unfolding s3_def es_def by (rule wf_mid_after_contacts [OF m _ c]) (rule collected_coin)
  have en: "entities s3 = entities s" by (simp add: s3_def after_contacts_def integrate_def)
  have wt: "wf_state t" using wf_swept [OF m3] unfolding en t_def .
  have s': "s' = t\<lparr>trace := trace t @ ClearSurface # map Draw (entities t) @ [UpdateCanvas]\<rparr>"
    unfolding s'_def ticked_def es_def [symmetric] s3_def [symmetric] t_def [symmetric]
    by (rule render_eq [OF wf_mid_sprites [OF wf_wf_mid [OF wt]]])
  have mk: "marked_for_removal (entity_heap s3 e) \<longleftrightarrow> e \<in> set es \<or> marked_for_removal (entity_heap s e)"
    for e
    by (simp add: s3_def after_contacts_def integrate_def)
  have un: "e \<in> set (entities s) \<Longrightarrow> marked_for_removal (entity_heap s3 e) \<longleftrightarrow> e \<in> set es" for e
    using wf_unmarked [OF w, of e] by (simp add: mk)
  have M: "{e \<in> set (entities s). marked_for_removal (entity_heap s3 e)} = set es \<inter> set (entities s)"
    using un by auto
  have ent: "entities t = filter (\<lambda>e. e \<notin> set es) (entities s)"
    unfolding t_def swept_fields en by (rule filter_cong) (auto simp: un)
  show "entities s' = filter (\<lambda>e. e \<notin> set es) (entities s)"
    using ent by (simp add: s')
  have "entities s' = entities t" by (simp add: s')
  moreover have "trace t = trace s @ Step TIME_STEP # H @ HandleKeyboardInput # F
      @ map Update (entities s)"
    by (simp add: t_def s3_def after_contacts_def integrate_def)
  ultimately show "trace s' = trace s @ Step TIME_STEP # H @ HandleKeyboardInput # F
            @ map Update (entities s) @ ClearSurface # map Draw (entities s') @ [UpdateCanvas]"
    by (simp add: s')
  show "score s' = score s + coin_value * int (length es)"
    by (simp add: s' t_def s3_def swept_def detach_all_def after_contacts_def integrate_def)
  show "marked_for_removal (entity_heap s' e) \<longleftrightarrow> e \<in> set es \<or> marked_for_removal (entity_heap s e)"
    for e
    by (simp add: s' t_def mk)
  have eb: "e_body (entity_heap s3 e) = e_body (entity_heap s e)"
    and esh: "e_shape (entity_heap s3 e) = e_shape (entity_heap s e)" for e
    by (simp_all add: s3_def after_contacts_def integrate_def)
  have sp3: "space s3 = space s" by (simp add: s3_def after_contacts_def integrate_def)
  show "bodies (space s') = bodies (space s)
      - (\<lambda>e. e_body (entity_heap s e)) ` (set es \<inter> set (entities s))"
    unfolding M [symmetric] by (simp add: s' t_def swept_def detach_all_def eb sp3)
  show "shapes (space s') = shapes (space s)
      - (\<lambda>e. e_shape (entity_heap s e)) ` (set es \<inter> set (entities s))"
    unfolding M [symmetric] by (simp add: s' t_def swept_def detach_all_def esh sp3)
  show "all_sprites s' = set (entities s')"
    using wf_mid_sprites [OF wf_wf_mid [OF wt]] by (simp add: s')
  show "e_body (entity_heap s' e) = e_body (entity_heap s e)" for e
    by (simp add: s' t_def eb)
  show "e_shape (entity_heap s' e) = e_shape (entity_heap s e)" for e
    by (simp add: s' t_def esh)
  show "cls (entity_heap s' e) = cls (entity_heap s e)" for e
    by (simp add: s' t_def s3_def after_contacts_def integrate_def)
  show "camera s' = c"
    by (simp add: s' t_def s3_def swept_def detach_all_def)
qed


text \<open>
  C1 (amended). In every reachable state one tick succeeds and works in this order:
  (c) the physics step, once, with the fixed time step, and within it the impulses of
  the begin-contact callbacks (none when the step reports no contact); (a) the keyboard
  handling, after which the camera is panned by \<open>pan_speed\<close> over the zoom along
  the axes of the held arrow keys; (b) the steering block: when a controllable entity
  exists and is alive and the keys a, d, w, s give a non-zero direction, exactly one
  call of \<open>apply_force_at_local_point\<close> on its body, at the local point (0, 0), with
  the direction normalised to length 1 and scaled by \<open>force_magnitude\<close>, and no call
  otherwise; (d) the update of every entity registered before the tick, after which the
  registry holds exactly the entities not flagged, the flagged ones being dead and
  their bodies and shapes out of the space; (e) the rendering of the entities still
  registered. The physics step of a tick precedes that tick's input sampling and force
  application.
\<close>

theorem update_simulation_order:
  assumes "reachable s" and "deliverable s (Tick out)"
  shows "\<exists>s' H. update_simulation out s = Inr s'
     \<and> trace s' = trace s @ Step TIME_STEP # H @ HandleKeyboardInput #
          (case controllable_object s of
             None \<Rightarrow> []
           | Some p \<Rightarrow>
               if p \<in> all_sprites s \<and> steering_direction (pressed_keys s) \<noteq> (0, 0)
               then [ApplyForceAtLocalPoint (e_body (entity_heap s p))
                       (vscale (normalized (steering_direction (pressed_keys s))) force_magnitude)
                       (0, 0)]
               else [])
          @ map Update (entities s) @ ClearSurface # map Draw (entities s') @ [UpdateCanvas]
     \<and> list_all is_impulse H \<and> (begins out = [] \<longrightarrow> H = [])
     \<and> camera s' = panned_camera (pressed_keys s) (camera s)
     \<and> (steering_direction (pressed_keys s) \<noteq> (0, 0) \<longrightarrow>
           vlength (normalized (steering_direction (pressed_keys s))) = 1)
     \<and> entities s' = filter (\<lambda>e. \<not> marked_for_removal (entity_heap s' e)) (entities s)
     \<and> (begins out = [] \<longrightarrow> entities s' = entities s)
     \<and> all_sprites s' = set (entities s')
     \<and> (\<forall>e\<in>set (entities s). marked_for_removal (entity_heap s' e) \<longrightarrow>
           e_body (entity_heap s e) \<notin> bodies (space s')
         \<and> e_shape (entity_heap s e) \<notin> shapes (space s'))"
proof -
  note w = reachable_wf [OF assms(1)]
  obtain H c where r: "update_simulation out s = Inr (ticked s out H c (steering_calls s))"
    and H: "list_all is_impulse H" "begins out = [] \<longrightarrow> H = []" and c: "cam_ok c"
    and pc: "c = panned_camera (pressed_keys s) (camera s)"
    using update_simulation_eq [OF w assms(2)] by blast
  define s' where "s' = ticked s out H c (steering_calls s)"
  define es where "es = collected s (begins out)"
  note f = ticked_facts [OF w c, of out H "steering_calls s", folded s'_def es_def]
  have t: "trace s' = trace s @ Step TIME_STEP # H @ HandleKeyboardInput #
          (case controllable_object s of
             None \<Rightarrow> []
           | Some p \<Rightarrow>
               if p \<in> all_sprites s \<and> steering_direction (pressed_keys s) \<noteq> (0, 0)
               then [ApplyForceAtLocalPoint (e_body (entity_heap s p))
                       (vscale (normalized (steering_direction (pressed_keys s))) force_magnitude)
                       (0, 0)]
               else [])
          @ map Update (entities s) @ ClearSurface # map Draw (entities s') @ [UpdateCanvas]"
    using f(1) unfolding steering_calls_eq .
  have mk: "marked_for_removal (entity_heap s' e) \<longleftrightarrow> e \<in> set es"
    if "e \<in> set (entities s)" for e
    using f(4) [of e] wf_unmarked [OF w that] by simp
  have "filter (\<lambda>e. e \<notin> set es) (entities s)
      = filter (\<lambda>e. \<not> marked_for_removal (entity_heap s' e)) (entities s)"
    by (rule filter_cong [OF refl]) (simp add: mk)
  then have en: "entities s' = filter (\<lambda>e. \<not> marked_for_removal (entity_heap s' e)) (entities s)"
    using f(2) by simp
  have gone: "e_body (entity_heap s e) \<notin> bodies (space s')
         \<and> e_shape (entity_heap s e) \<notin> shapes (space s')"
    if e: "e \<in> set (entities s)" and "marked_for_removal (entity_heap s' e)" for e
  proof -
    have "e \<in> set es" using mk [OF e] that(2) by simp
    then show ?thesis using f(5) f(6) e by simp
  qed
  have u: "steering_direction (pressed_keys s) \<noteq> (0, 0) \<longrightarrow>
           vlength (normalized (steering_direction (pressed_keys s))) = 1"
    using vlength_normalized(2) by blast
  have cm: "camera s' = panned_camera (pressed_keys s) (camera s)"
    using f(11) pc by simp
  have same: "begins out = [] \<longrightarrow> entities s' = entities s"
    using f(2) by (simp add: es_def collected_def map_filter_simps)
  show ?thesis
    using r [folded s'_def] t H cm u en same f(7) gone by blast
qed

lemma player_d_right_state:
  "\<exists>s. run [AddPlayerButton, KeyPress ''d'', KeyPress ''right''] = Inr s
     \<and> trace s = [] \<and> entities s = [6] \<and> controllable_object s = Some 6
     \<and> all_sprites s = {6} \<and> pressed_keys s = {''d'', ''right''}
     \<and> e_body (entity_heap s 6) = 7 \<and> shapes (space s) = {1, 2, 3, 4, 8}
     \<and> camera s = Camera SCREEN_WIDTH SCREEN_HEIGHT"
  by (simp add: run_def SimulationApp_init_def add_boundaries_def new_app_def Let_def space_ops
      SCREEN_WIDTH_def SCREEN_HEIGHT_def add_player_gui_def ControllableEntity_init_def
      Entity_init_def screen_to_world_def Camera_def view_centre_def on_key_press_def
      lower_def lower_char_def eval_nat_numeral insert_commute)

theorem update_simulation_order_witness:
  "\<exists>s s'. run [AddPlayerButton, KeyPress ''d'', KeyPress ''right''] = Inr s \<and> reachable s
     \<and> deliverable s (Tick \<lparr>poses = (\<lambda>_. None), begins = []\<rparr>)
     \<and> update_simulation \<lparr>poses = (\<lambda>_. None), begins = []\<rparr> s = Inr s'
     \<and> trace s' = [Step TIME_STEP, HandleKeyboardInput,
                    ApplyForceAtLocalPoint 7 (20000, 0) (0, 0),
                    Update 6, ClearSurface, Draw 6, UpdateCanvas]
     \<and> offset_x (camera s) = 0 \<and> offset_x (camera s') = 15
     \<and> entities s' = [6]"
proof -
  let ?out = "\<lparr>poses = (\<lambda>_. None), begins = []\<rparr> :: step_outcome"
  let ?evs = "[AddPlayerButton, KeyPress ''d'', KeyPress ''right'']"
  obtain s where s: "run ?evs = Inr s" and tr: "trace s = []" and en: "entities s = [6]"
    and co: "controllable_object s = Some 6" and al: "all_sprites s = {6}"
    and pk: "pressed_keys s = {''d'', ''right''}" and eb: "e_body (entity_heap s 6) = 7"
    and cam: "camera s = Camera SCREEN_WIDTH SCREEN_HEIGHT"
    using player_d_right_state by blast
  have "list_all (\<lambda>ev. \<not> is_tick ev) ?evs" by simp
  then obtain s0 where "run ?evs = Inr s0" and "reachable s0"
    using run_reachable by blast
  then have r: "reachable s" using s by simp
  have d: "deliverable s (Tick ?out)" by simp
  have sd: "steering_direction (pressed_keys s) = (1, 0)"
    by (simp add: steering_direction_def key_axis_def pk)
  have nm: "vscale (normalized (1, 0)) force_magnitude = (20000, 0)"
    by (simp add: normalized_def vlength_def vscale_def force_magnitude_def)
  have pan: "offset_x (panned_camera (pressed_keys s) (camera s)) = 15"
    by (simp add: panned_camera_def key_axis_def pk cam Camera_def)
  obtain s' H where u: "update_simulation ?out s = Inr s'"
    and t: "trace s' = trace s @ Step TIME_STEP # H @ HandleKeyboardInput #
          (case controllable_object s of
             None \<Rightarrow> []
           | Some p \<Rightarrow>
               if p \<in> all_sprites s \<and> steering_direction (pressed_keys s) \<noteq> (0, 0)
               then [ApplyForceAtLocalPoint (e_body (entity_heap s p))
                       (vscale (normalized (steering_direction (pressed_keys s))) force_magnitude)
                       (0, 0)]
               else [])
          @ map Update (entities s) @ ClearSurface # map Draw (entities s') @ [UpdateCanvas]"
    and H0: "begins ?out = [] \<longrightarrow> H = []"
    and cm: "camera s' = panned_camera (pressed_keys s) (camera s)"
    and same: "begins ?out = [] \<longrightarrow> entities s' = entities s"
    using update_simulation_order [OF r d] by blast
  have Hn: "H = []" using H0 by simp
  have e6: "entities s' = [6]" using same by (simp add: en)
  have t': "trace s' = [Step TIME_STEP, HandleKeyboardInput,
                    ApplyForceAtLocalPoint 7 (20000, 0) (0, 0),
                    Update 6, ClearSurface, Draw 6, UpdateCanvas]"
    using t by (simp add: Hn tr co al sd nm eb en e6)
  have o: "offset_x (camera s) = 0" by (simp add: cam Camera_def)
  have o': "offset_x (camera s') = 15" using cm pan by simp
  show ?thesis using s r d u t' o o' e6 by blast
qed

text \<open>
  C1 as stated fails: with a player spawned and the key d held, the calls of one tick
  are the physics step first, then the keyboard handling and the steering force; and
  with a player spawned and alive but no key held, the tick applies no force at all.
\<close>

theorem tick_order_counterexample:
  "map_sum id trace
     (run [AddPlayerButton, KeyPress ''d'', Tick \<lparr>poses = (\<lambda>_. None), begins = []\<rparr>])
   = Inr [Step (1 / 60), HandleKeyboardInput, ApplyForceAtLocalPoint 7 (20000, 0) (0, 0),
          Update 6, ClearSurface, Draw 6, UpdateCanvas]
   \<and> map_sum id (\<lambda>s. (trace s, controllable_object s, all_sprites s))
     (run [AddPlayerButton, Tick \<lparr>poses = (\<lambda>_. None), begins = []\<rparr>])
   = Inr ([Step (1 / 60), HandleKeyboardInput, Update 6, ClearSurface, Draw 6, UpdateCanvas],
          Some 6, {6})"
  by (simp add: run_def SimulationApp_init_def add_boundaries_def new_app_def Let_def space_ops
      SCREEN_WIDTH_def SCREEN_HEIGHT_def add_player_gui_def ControllableEntity_init_def
      Entity_init_def screen_to_world_def Camera_def view_centre_def on_key_press_def
      lower_def lower_char_def eval_nat_numeral insert_commute
      update_simulation_def space_step_def integrate_def emit_def handle_keyboard_input_def
      steer_def apply_force_def force_magnitude_def update_entity_def Entity_update_def
      render_def Entity_draw_def TIME_STEP_def FPS_def COLLISION_TYPE_PLAYER_def)

section \<open>Collecting a coin\<close>

lemma collected_by_pair: "collected_by s arb \<noteq> None \<Longrightarrow> player_coin_pair s arb"
  by (auto simp: collected_by_def player_coin_pair_def Let_def split: if_splits)

lemma map_filter_filter:
  assumes "\<And>x. f x \<noteq> None \<Longrightarrow> P x"
  shows "List.map_filter f (filter P xs) = List.map_filter f xs"
proof (induction xs)
  case Nil
  show ?case by simp
next
  case (Cons x xs)
  show ?case
  proof (cases "f x")
    case None
    then show ?thesis using Cons.IH by (simp add: map_filter_simps)
  next
    case (Some y)
    then have "P x" using assms by simp
    then show ?thesis using Cons.IH Some by (simp add: map_filter_simps)
  qed
qed

lemma collected_filter:
  "collected s (filter (player_coin_pair s) bs) = collected s bs"
  unfolding collected_def by (rule map_filter_filter) (rule collected_by_pair)

lemma type_of_class_coin: "type_of_class k = COLLISION_TYPE_COIN \<Longrightarrow> k = CoinEntity"
  by (cases k)
    (simp_all add: COLLISION_TYPE_COIN_def COLLISION_TYPE_BALL_def COLLISION_TYPE_PLAYER_def
      COLLISION_TYPE_BOX_def COLLISION_TYPE_BOUNCER_def)

lemma wf_mid_coin_shape:
  assumes m: "wf_mid s" and c: "c \<in> shapes (space s)"
    and t: "collision_type (shape_heap s c) = COLLISION_TYPE_COIN"
  shows "\<exists>e. e \<in> set (entities s) \<and> c = e_shape (entity_heap s e)
     \<and> parent_sprite (shape_heap s c) = Some e \<and> cls (entity_heap s e) = CoinEntity"
proof -
  have "c \<notin> boundary_shapes"
  proof
    assume "c \<in> boundary_shapes"
    then have "collision_type (shape_heap s c) = 0" using wf_mid_boundary [OF m] by simp
    then show False using t by (simp add: COLLISION_TYPE_COIN_def)
  qed
  then obtain e where e: "e \<in> set (entities s)" and ce: "c = e_shape (entity_heap s e)"
    using c by (auto simp: wf_mid_shapes [OF m])
  note ok = wf_mid_entity [OF m e]
  have p: "parent_sprite (shape_heap s c) = Some e"
    using ok by (simp add: entity_ok_def Let_def ce)
  have "type_of_class (cls (entity_heap s e)) = COLLISION_TYPE_COIN"
    using ok t by (simp add: entity_ok_def Let_def ce)
  then have "cls (entity_heap s e) = CoinEntity" by (rule type_of_class_coin)
  then show ?thesis using e ce p by blast
qed

lemma tick_registry:
  assumes w: "wf_state s" and d: "deliverable s (Tick out)"
  shows "\<exists>s'. update_simulation out s = Inr s' \<and> wf_state s'
     \<and> set (entities s') \<subseteq> set (entities s)"
proof -
  obtain H c where r: "update_simulation out s = Inr (ticked s out H c (steering_calls s))"
    and wt: "wf_state (ticked s out H c (steering_calls s))" and c: "cam_ok c"
    using update_simulation_eq [OF w d] by blast
  have "set (entities (ticked s out H c (steering_calls s))) \<subseteq> set (entities s)"
    unfolding ticked_facts(2) [OF w c] by auto
  then show ?thesis using r wt by blast
qed

lemma pair_collects:
  assumes m: "wf_mid s" and a: "fst arb \<in> shapes (space s)" and b: "snd arb \<in> shapes (space s)"
    and pr: "player_coin_pair s arb"
  shows "\<exists>p c e. (arb = (p, c) \<or> arb = (c, p))
     \<and> collision_type (shape_heap s p) = COLLISION_TYPE_PLAYER
     \<and> collision_type (shape_heap s c) = COLLISION_TYPE_COIN
     \<and> parent_sprite (shape_heap s c) = Some e \<and> cls (entity_heap s e) = CoinEntity
     \<and> e \<in> set (entities s) \<and> c = e_shape (entity_heap s e)
     \<and> collected_by s arb = Some e"
proof -
  have ne: "COLLISION_TYPE_COIN \<noteq> COLLISION_TYPE_PLAYER"
    by (simp add: COLLISION_TYPE_COIN_def COLLISION_TYPE_PLAYER_def)
  obtain p c where arb: "arb = (p, c) \<or> arb = (c, p)"
    and tp: "collision_type (shape_heap s p) = COLLISION_TYPE_PLAYER"
    and tc: "collision_type (shape_heap s c) = COLLISION_TYPE_COIN"
    using pr unfolding player_coin_pair_def by (cases arb) auto
  have cin: "c \<in> shapes (space s)" using arb a b by auto
  obtain e where e: "e \<in> set (entities s)" and ce: "c = e_shape (entity_heap s e)"
    and par: "parent_sprite (shape_heap s c) = Some e" and k: "cls (entity_heap s e) = CoinEntity"
    using wf_mid_coin_shape [OF m cin tc] by blast
  have cs: "coin_sprite s c = Some e" by (simp add: coin_sprite_def par k)
  have cb: "collected_by s arb = Some e"
    using arb tp tc ne cs by (auto simp: collected_by_def Let_def)
  show ?thesis using arb tp tc par k e ce cb by blast
qed

lemma collected_by_shape:
  assumes m: "wf_mid s" and a: "fst arb \<in> shapes (space s)" and b: "snd arb \<in> shapes (space s)"
    and e: "e \<in> set (entities s)"
  shows "collected_by s arb = Some e \<longleftrightarrow>
     player_coin_pair s arb \<and> e_shape (entity_heap s e) \<in> {fst arb, snd arb}
       \<and> cls (entity_heap s e) = CoinEntity"
proof
  assume cb: "collected_by s arb = Some e"
  then have pr: "player_coin_pair s arb" by (intro collected_by_pair) simp
  obtain p c e' where arb: "arb = (p, c) \<or> arb = (c, p)"
    and k: "cls (entity_heap s e') = CoinEntity" and ce: "c = e_shape (entity_heap s e')"
    and cb': "collected_by s arb = Some e'"
    using pair_collects [OF m a b pr] by blast
  have "e' = e" using cb cb' by simp
  then show "player_coin_pair s arb \<and> e_shape (entity_heap s e) \<in> {fst arb, snd arb}
       \<and> cls (entity_heap s e) = CoinEntity"
    using pr arb k ce by auto
next
  assume h: "player_coin_pair s arb \<and> e_shape (entity_heap s e) \<in> {fst arb, snd arb}
       \<and> cls (entity_heap s e) = CoinEntity"
  then obtain p c e' where arb: "arb = (p, c) \<or> arb = (c, p)"
    and tp: "collision_type (shape_heap s p) = COLLISION_TYPE_PLAYER"
    and e': "e' \<in> set (entities s)" and ce: "c = e_shape (entity_heap s e')"
    and cb': "collected_by s arb = Some e'"
    using pair_collects [OF m a b] by blast
  have ne: "COLLISION_TYPE_COIN \<noteq> COLLISION_TYPE_PLAYER"
    by (simp add: COLLISION_TYPE_COIN_def COLLISION_TYPE_PLAYER_def)
  have "collision_type (shape_heap s (e_shape (entity_heap s e))) = COLLISION_TYPE_COIN"
    using wf_mid_entity [OF m e] h by (simp add: entity_ok_def Let_def)
  then have "e_shape (entity_heap s e) \<noteq> p" using tp ne by auto
  then have "e_shape (entity_heap s e) = e_shape (entity_heap s e')" using h arb ce by auto
  then have "e = e'" using wf_mid_inj_shape [OF m] e e' by (auto dest: inj_onD)
  then show "collected_by s arb = Some e" using cb' by simp
qed

lemma length_map_filter:
  "length (List.map_filter f xs) = length (filter (\<lambda>x. f x \<noteq> None) xs)"
  by (induction xs) (auto simp: map_filter_simps split: option.split)

lemma length_collected:
  assumes m: "wf_mid s" and d: "deliverable s (Tick out)"
  shows "length (collected s (begins out)) = length (filter (player_coin_pair s) (begins out))"
proof -
  have "filter (\<lambda>arb. collected_by s arb \<noteq> None) (begins out)
      = filter (player_coin_pair s) (begins out)"
  proof (rule filter_cong [OF refl])
    fix arb
    assume mem: "arb \<in> set (begins out)"
    then have a: "fst arb \<in> shapes (space s)" and b: "snd arb \<in> shapes (space s)"
      using d by (auto simp: list_all_iff)
    show "(collected_by s arb \<noteq> None) = player_coin_pair s arb"
      using pair_collects [OF m a b] collected_by_pair [of s arb] by auto
  qed
  then show ?thesis by (simp add: collected_def length_map_filter)
qed

lemma coin_handlers:
  assumes sh: "shape_heap t = shape_heap s"
    and cl: "\<And>x. cls (entity_heap t x) = cls (entity_heap s x)"
    and arb: "arb = (p, c) \<or> arb = (c, p)"
    and tp: "collision_type (shape_heap s p) = COLLISION_TYPE_PLAYER"
    and tc: "collision_type (shape_heap s c) = COLLISION_TYPE_COIN"
    and par: "parent_sprite (shape_heap s c) = Some e" and k: "cls (entity_heap s e) = CoinEntity"
  shows "player_collect_coin_begin (p, c) t = Inr (True, on_collected e t)"
    and "collision_begin arb t = Inr (on_collected e t)"
proof -
  show h: "player_collect_coin_begin (p, c) t = Inr (True, on_collected e t)"
    by (simp add: player_collect_coin_begin_def Let_def sh cl par k)
  have ne: "COLLISION_TYPE_COIN \<noteq> COLLISION_TYPE_PLAYER"
    by (simp add: COLLISION_TYPE_COIN_def COLLISION_TYPE_PLAYER_def)
  show "collision_begin arb t = Inr (on_collected e t)"
    using arb
  proof
    assume "arb = (p, c)"
    then show ?thesis by (simp add: collision_begin_def Let_def sh tp tc h)
  next
    assume "arb = (c, p)"
    then show ?thesis using ne by (simp add: collision_begin_def Let_def sh tp tc h)
  qed
qed

text \<open>
  C3. In every reachable state a tick succeeds, whatever begin-contacts its physics
  step reports, and for every begin-contact between a PLAYER shape p and a COIN shape
  c, in either order: c belongs to a registered \<open>CoinEntity\<close> e; in any state of
  the step (same shapes and classes) the handler of the pair adds exactly the coin's
  value, 10, to the score, sets the flag of e and returns accept, and that is all the
  dispatch of the pair does; at the end of the tick e is marked, dead, out of the
  registry, its body and shape out of the space, and e is still absent after the
  following tick. Over the tick the score has increased by 10 for each such contact,
  the registered entities marked are exactly the coins of these contacts, and the
  length of the registry has decreased by their number: by 1, with the score up by 10,
  when the step reports one such contact.
\<close>

theorem coin_collected_on_contact:
  assumes r: "reachable s" and d: "deliverable s (Tick out)"
  shows "\<exists>s'. update_simulation out s = Inr s' \<and> reachable s' \<and> coin_value = 10
     \<and> score s' = score s
          + coin_value * int (length (filter (player_coin_pair s) (begins out)))
     \<and> length (entities s')
          + card {e \<in> set (entities s). marked_for_removal (entity_heap s' e)}
         = length (entities s)
     \<and> (\<forall>e\<in>set (entities s). marked_for_removal (entity_heap s' e) \<longleftrightarrow>
           (\<exists>arb\<in>set (begins out). player_coin_pair s arb
              \<and> e_shape (entity_heap s e) \<in> {fst arb, snd arb}
              \<and> cls (entity_heap s e) = CoinEntity))
     \<and> (\<forall>arb. filter (player_coin_pair s) (begins out) = [arb] \<longrightarrow>
           score s' = score s + 10 \<and> length (entities s') + 1 = length (entities s))
     \<and> (\<forall>arb\<in>set (begins out). player_coin_pair s arb \<longrightarrow>
           (\<exists>p c e. (arb = (p, c) \<or> arb = (c, p))
              \<and> collision_type (shape_heap s p) = COLLISION_TYPE_PLAYER
              \<and> collision_type (shape_heap s c) = COLLISION_TYPE_COIN
              \<and> parent_sprite (shape_heap s c) = Some e
              \<and> cls (entity_heap s e) = CoinEntity \<and> e \<in> set (entities s)
              \<and> (\<forall>t. shape_heap t = shape_heap s
                       \<and> (\<forall>x. cls (entity_heap t x) = cls (entity_heap s x)) \<longrightarrow>
                    player_collect_coin_begin (p, c) t
                      = Inr (True, t\<lparr>score := score t + 10,
                                     entity_heap := (entity_heap t)
                                       (e := (entity_heap t e)\<lparr>marked_for_removal := True\<rparr>)\<rparr>)
                  \<and> collision_begin arb t
                      = Inr (t\<lparr>score := score t + 10,
                               entity_heap := (entity_heap t)
                                 (e := (entity_heap t e)\<lparr>marked_for_removal := True\<rparr>)\<rparr>))
              \<and> marked_for_removal (entity_heap s' e)
              \<and> e \<notin> set (entities s') \<and> e \<notin> all_sprites s'
              \<and> e_body (entity_heap s e) \<notin> bodies (space s')
              \<and> e_shape (entity_heap s e) \<notin> shapes (space s')
              \<and> length (entities s') < length (entities s)
              \<and> (\<forall>out2. deliverable s' (Tick out2) \<longrightarrow>
                    (\<exists>s''. update_simulation out2 s' = Inr s'' \<and> e \<notin> set (entities s'')))))"
proof -
  note w = reachable_wf [OF r]
  note m = wf_wf_mid [OF w]
  define es where "es = collected s (begins out)"
  obtain H cam where u: "update_simulation out s = Inr (ticked s out H cam (steering_calls s))"
    and cam: "cam_ok cam"
    using update_simulation_eq [OF w d] by blast
  define s' where "s' = ticked s out H cam (steering_calls s)"
  note f = ticked_facts [OF w cam, of out H "steering_calls s", folded s'_def es_def]
  have us: "update_simulation out s = Inr s'" using u by (simp add: s'_def)
  have rs': "reachable s'" using reachable.step [OF r d] u by (simp add: s'_def)
  have cv: "coin_value = 10" by (simp add: coin_value_def)
  have inb: "fst arb \<in> shapes (space s) \<and> snd arb \<in> shapes (space s)"
    if "arb \<in> set (begins out)" for arb
    using d that by (auto simp: list_all_iff)
  have sc: "score s' = score s
      + coin_value * int (length (filter (player_coin_pair s) (begins out)))"
    using f(3) length_collected [OF m d] by (simp add: es_def)
  have mk: "marked_for_removal (entity_heap s' e) \<longleftrightarrow> e \<in> set es"
    if "e \<in> set (entities s)" for e
    using f(4) [of e] wf_unmarked [OF w that] by simp
  have ent: "entities s' = filter (\<lambda>e. e \<notin> set es) (entities s)" by (rule f(2))
  have "{e \<in> set (entities s). marked_for_removal (entity_heap s' e)}
      = {e. e \<in> set es} \<inter> set (entities s)"
    using mk by auto
  then have "card {e \<in> set (entities s). marked_for_removal (entity_heap s' e)}
      = length (filter (\<lambda>e. e \<in> set es) (entities s))"
    using distinct_length_filter [OF wf_mid_distinct [OF m], of "\<lambda>e. e \<in> set es"] by simp
  then have cnt: "length (entities s')
      + card {e \<in> set (entities s). marked_for_removal (entity_heap s' e)} = length (entities s)"
    using sum_length_filter_compl [of "\<lambda>e. e \<in> set es" "entities s"] by (simp add: ent)
  have iff: "marked_for_removal (entity_heap s' e) \<longleftrightarrow>
           (\<exists>arb\<in>set (begins out). player_coin_pair s arb
              \<and> e_shape (entity_heap s e) \<in> {fst arb, snd arb}
              \<and> cls (entity_heap s e) = CoinEntity)"
    if e: "e \<in> set (entities s)" for e
  proof -
    have "e \<in> set es \<longleftrightarrow> (\<exists>arb\<in>set (begins out). collected_by s arb = Some e)"
      by (simp add: es_def set_collected)
    also have "\<dots> \<longleftrightarrow> (\<exists>arb\<in>set (begins out). player_coin_pair s arb
              \<and> e_shape (entity_heap s e) \<in> {fst arb, snd arb}
              \<and> cls (entity_heap s e) = CoinEntity)"
      using collected_by_shape [OF m _ _ e] inb by blast
    finally show ?thesis using mk [OF e] by simp
  qed
  have gone: "e \<notin> set (entities s') \<and> e \<notin> all_sprites s'
       \<and> e_body (entity_heap s e) \<notin> bodies (space s')
       \<and> e_shape (entity_heap s e) \<notin> shapes (space s')
       \<and> length (entities s') < length (entities s)"
    if e: "e \<in> set (entities s)" and es: "e \<in> set es" for e
  proof -
    have nin: "e \<notin> set (entities s')" using es by (simp add: ent)
    have nsp: "e \<notin> all_sprites s'" using f(7) nin by simp
    have nb: "e_body (entity_heap s e) \<notin> bodies (space s')" using f(5) e es by simp
    have nsh: "e_shape (entity_heap s e) \<notin> shapes (space s')" using f(6) e es by simp
    have "length (filter (\<lambda>e. e \<notin> set es) (entities s)) < length (entities s)"
      using e es by (intro length_filter_less [of e]) simp_all
    then show ?thesis using nin nsp nb nsh by (simp add: ent)
  qed
  have per: "\<exists>p c e. (arb = (p, c) \<or> arb = (c, p))
              \<and> collision_type (shape_heap s p) = COLLISION_TYPE_PLAYER
              \<and> collision_type (shape_heap s c) = COLLISION_TYPE_COIN
              \<and> parent_sprite (shape_heap s c) = Some e
              \<and> cls (entity_heap s e) = CoinEntity \<and> e \<in> set (entities s)
              \<and> (\<forall>t. shape_heap t = shape_heap s
                       \<and> (\<forall>x. cls (entity_heap t x) = cls (entity_heap s x)) \<longrightarrow>
                    player_collect_coin_begin (p, c) t
                      = Inr (True, t\<lparr>score := score t + 10,
                                     entity_heap := (entity_heap t)
                                       (e := (entity_heap t e)\<lparr>marked_for_removal := True\<rparr>)\<rparr>)
                  \<and> collision_begin arb t
                      = Inr (t\<lparr>score := score t + 10,
                               entity_heap := (entity_heap t)
                                 (e := (entity_heap t e)\<lparr>marked_for_removal := True\<rparr>)\<rparr>))
              \<and> marked_for_removal (entity_heap s' e)
              \<and> e \<notin> set (entities s') \<and> e \<notin> all_sprites s'
              \<and> e_body (entity_heap s e) \<notin> bodies (space s')
              \<and> e_shape (entity_heap s e) \<notin> shapes (space s')
              \<and> length (entities s') < length (entities s)
              \<and> (\<forall>out2. deliverable s' (Tick out2) \<longrightarrow>
                    (\<exists>s''. update_simulation out2 s' = Inr s'' \<and> e \<notin> set (entities s'')))"
    if mem: "arb \<in> set (begins out)" and pr: "player_coin_pair s arb" for arb
  proof -
    obtain p c e where arb: "arb = (p, c) \<or> arb = (c, p)"
      and tp: "collision_type (shape_heap s p) = COLLISION_TYPE_PLAYER"
      and tc: "collision_type (shape_heap s c) = COLLISION_TYPE_COIN"
      and par: "parent_sprite (shape_heap s c) = Some e"
      and k: "cls (entity_heap s e) = CoinEntity"
      and e: "e \<in> set (entities s)" and cb: "collected_by s arb = Some e"
      using pair_collects [OF m _ _ pr] inb [OF mem] by blast
    have es: "e \<in> set es" using mem cb by (auto simp: es_def set_collected)
    have hd: "player_collect_coin_begin (p, c) t
                      = Inr (True, t\<lparr>score := score t + 10,
                                     entity_heap := (entity_heap t)
                                       (e := (entity_heap t e)\<lparr>marked_for_removal := True\<rparr>)\<rparr>)
                  \<and> collision_begin arb t
                      = Inr (t\<lparr>score := score t + 10,
                               entity_heap := (entity_heap t)
                                 (e := (entity_heap t e)\<lparr>marked_for_removal := True\<rparr>)\<rparr>)"
      if "shape_heap t = shape_heap s \<and> (\<forall>x. cls (entity_heap t x) = cls (entity_heap s x))"
      for t
      using coin_handlers [of t s arb p c e, OF _ _ arb tp tc par k] that
      by (simp add: on_collected_def coin_value_def)
    have nxt: "\<exists>s''. update_simulation out2 s' = Inr s'' \<and> e \<notin> set (entities s'')"
      if dl2: "deliverable s' (Tick out2)" for out2
    proof -
      obtain s'' where "update_simulation out2 s' = Inr s''"
        and "set (entities s'') \<subseteq> set (entities s')"
        using tick_registry [OF reachable_wf [OF rs'] dl2] by blast
      then show ?thesis using gone [OF e es] by blast
    qed
    show ?thesis
      using arb tp tc par k e hd mk [OF e] es gone [OF e es] nxt by blast
  qed
  have one: "score s' = score s + 10 \<and> length (entities s') + 1 = length (entities s)"
    if o: "filter (player_coin_pair s) (begins out) = [arb]" for arb
  proof -
    have "arb \<in> set (filter (player_coin_pair s) (begins out))" by (simp add: o)
    then have mem: "arb \<in> set (begins out)" and pr: "player_coin_pair s arb" by simp_all
    obtain e where e: "e \<in> set (entities s)" and cb: "collected_by s arb = Some e"
      using pair_collects [OF m _ _ pr] inb [OF mem] by blast
    have "collected s (begins out) = collected s [arb]"
      using collected_filter [of s "begins out"] o by simp
    then have es1: "es = [e]" by (simp add: es_def collected_def map_filter_simps cb)
    have "{x \<in> set (entities s). marked_for_removal (entity_heap s' x)} = {e}"
      using mk e by (auto simp: es1)
    then show ?thesis using cnt sc by (simp add: o cv)
  qed
  show ?thesis
    using us rs' cv sc cnt iff one per by blast
qed


text \<open>
  A player and two coins, all spawned at the view centre, and a step that reports both
  contacts, the second with the COIN shape first: the score goes from 0 to 20 and the
  registry from three entities to one.
\<close>

lemma player_two_coins_state:
  "\<exists>s. run [AddPlayerButton, AddObjectButton ''coin'', AddObjectButton ''coin''] = Inr s
     \<and> shapes (space s) = {1, 2, 3, 4, 8, 11, 14}
     \<and> collision_type (shape_heap s 8) = COLLISION_TYPE_PLAYER
     \<and> collision_type (shape_heap s 11) = COLLISION_TYPE_COIN
     \<and> collision_type (shape_heap s 14) = COLLISION_TYPE_COIN
     \<and> parent_sprite (shape_heap s 11) = Some 9 \<and> parent_sprite (shape_heap s 14) = Some 12
     \<and> e_shape (entity_heap s 6) = 8 \<and> e_shape (entity_heap s 9) = 11
     \<and> e_shape (entity_heap s 12) = 14
     \<and> cls (entity_heap s 6) = ControllableEntity
     \<and> cls (entity_heap s 9) = CoinEntity \<and> cls (entity_heap s 12) = CoinEntity
     \<and> score s = 0 \<and> entities s = [6, 9, 12]"
  by (simp add: run_def SimulationApp_init_def add_boundaries_def new_app_def Let_def space_ops
      SCREEN_WIDTH_def SCREEN_HEIGHT_def add_player_gui_def ControllableEntity_init_def
      Entity_init_def screen_to_world_def Camera_def view_centre_def
      add_object_at_mouse_center_def add_object_at_pos_def CoinEntity_init_def
      eval_nat_numeral insert_commute)

theorem coin_collected_on_contact_witness:
  "\<exists>s s'. run [AddPlayerButton, AddObjectButton ''coin'', AddObjectButton ''coin''] = Inr s
     \<and> reachable s
     \<and> deliverable s (Tick \<lparr>poses = (\<lambda>_. None), begins = [(8, 11), (14, 8)]\<rparr>)
     \<and> score s = 0 \<and> entities s = [6, 9, 12]
     \<and> update_simulation \<lparr>poses = (\<lambda>_. None), begins = [(8, 11), (14, 8)]\<rparr> s = Inr s'
     \<and> score s' = 20 \<and> length (entities s') = 1
     \<and> marked_for_removal (entity_heap s' 9) \<and> marked_for_removal (entity_heap s' 12)
     \<and> 9 \<notin> set (entities s') \<and> 12 \<notin> set (entities s')
     \<and> e_shape (entity_heap s 9) \<notin> shapes (space s')
     \<and> e_shape (entity_heap s 12) \<notin> shapes (space s')"
proof -
  let ?out = "\<lparr>poses = (\<lambda>_. None), begins = [(8::nat, 11::nat), (14, 8)]\<rparr> :: step_outcome"
  obtain s where s: "run [AddPlayerButton, AddObjectButton ''coin'', AddObjectButton ''coin'']
      = Inr s"
    and sh: "shapes (space s) = {1, 2, 3, 4, 8, 11, 14}"
    and tp: "collision_type (shape_heap s 8) = COLLISION_TYPE_PLAYER"
    and tc: "collision_type (shape_heap s 11) = COLLISION_TYPE_COIN"
      "collision_type (shape_heap s 14) = COLLISION_TYPE_COIN"
    and par: "parent_sprite (shape_heap s 11) = Some 9" "parent_sprite (shape_heap s 14) = Some 12"
    and es: "e_shape (entity_heap s 6) = 8" "e_shape (entity_heap s 9) = 11"
      "e_shape (entity_heap s 12) = 14"
    and k: "cls (entity_heap s 6) = ControllableEntity" "cls (entity_heap s 9) = CoinEntity"
      "cls (entity_heap s 12) = CoinEntity"
    and sc: "score s = 0" and en: "entities s = [6, 9, 12]"
    using player_two_coins_state by blast
  have "list_all (\<lambda>ev. \<not> is_tick ev)
      [AddPlayerButton, AddObjectButton ''coin'', AddObjectButton ''coin'']" by simp
  then obtain s0 where
    "run [AddPlayerButton, AddObjectButton ''coin'', AddObjectButton ''coin''] = Inr s0"
    "reachable s0"
    using run_reachable by blast
  then have r: "reachable s" using s by simp
  have d: "deliverable s (Tick ?out)" by (simp add: sh)
  have ne: "COLLISION_TYPE_COIN \<noteq> COLLISION_TYPE_PLAYER"
    by (simp add: COLLISION_TYPE_COIN_def COLLISION_TYPE_PLAYER_def)
  have p1: "player_coin_pair s (8, 11)" and p2: "player_coin_pair s (14, 8)"
    by (simp_all add: player_coin_pair_def tp tc)
  have fl: "filter (player_coin_pair s) (begins ?out) = [(8, 11), (14, 8)]"
    by (simp add: p1 p2)
  obtain s' where u: "update_simulation ?out s = Inr s'"
    and sc': "score s' = score s
        + coin_value * int (length (filter (player_coin_pair s) (begins ?out)))"
    and cv: "coin_value = 10"
    and cnt: "length (entities s')
        + card {e \<in> set (entities s). marked_for_removal (entity_heap s' e)} = length (entities s)"
    and iff: "\<forall>e\<in>set (entities s). marked_for_removal (entity_heap s' e) \<longleftrightarrow>
        (\<exists>arb\<in>set (begins ?out). player_coin_pair s arb
           \<and> e_shape (entity_heap s e) \<in> {fst arb, snd arb}
           \<and> cls (entity_heap s e) = CoinEntity)"
    and per: "\<forall>arb\<in>set (begins ?out). player_coin_pair s arb \<longrightarrow>
        (\<exists>p c e. (arb = (p, c) \<or> arb = (c, p))
           \<and> collision_type (shape_heap s p) = COLLISION_TYPE_PLAYER
           \<and> collision_type (shape_heap s c) = COLLISION_TYPE_COIN
           \<and> parent_sprite (shape_heap s c) = Some e
           \<and> e \<notin> set (entities s')
           \<and> e_shape (entity_heap s e) \<notin> shapes (space s'))"
    using coin_collected_on_contact [OF r d] by blast
  have s20: "score s' = 20" using sc' unfolding fl by (simp add: cv sc)
  have m9: "marked_for_removal (entity_heap s' 9)"
    using iff [rule_format, of 9] p1 by (simp add: en es k)
  have m12: "marked_for_removal (entity_heap s' 12)"
    using iff [rule_format, of 12] p2 by (simp add: en es k)
  have m6: "\<not> marked_for_removal (entity_heap s' 6)"
    using iff [rule_format, of 6] by (simp add: en k)
  have "{e \<in> set (entities s). marked_for_removal (entity_heap s' e)} = {9, 12}"
    using m6 m9 m12 by (auto simp: en)
  then have len: "length (entities s') = 1" using cnt by (simp add: en)
  have g9: "9 \<notin> set (entities s') \<and> e_shape (entity_heap s 9) \<notin> shapes (space s')"
  proof -
    obtain p c e where a: "(8::nat, 11::nat) = (p, c) \<or> (8::nat, 11::nat) = (c, p)"
      and t: "collision_type (shape_heap s c) = COLLISION_TYPE_COIN"
      and pe: "parent_sprite (shape_heap s c) = Some e"
      and g: "e \<notin> set (entities s')" "e_shape (entity_heap s e) \<notin> shapes (space s')"
      using per [rule_format, of "(8, 11)"] p1 by auto
    have "c = 11" using a t tp ne by auto
    then have "e = 9" using pe par by simp
    then show ?thesis using g by simp
  qed
  have g12: "12 \<notin> set (entities s') \<and> e_shape (entity_heap s 12) \<notin> shapes (space s')"
  proof -
    obtain p c e where a: "(14::nat, 8::nat) = (p, c) \<or> (14::nat, 8::nat) = (c, p)"
      and t: "collision_type (shape_heap s c) = COLLISION_TYPE_COIN"
      and pe: "parent_sprite (shape_heap s c) = Some e"
      and g: "e \<notin> set (entities s')" "e_shape (entity_heap s e) \<notin> shapes (space s')"
      using per [rule_format, of "(14, 8)"] p2 by auto
    have "c = 14" using a t tp ne by auto
    then have "e = 12" using pe par by simp
    then show ?thesis using g by simp
  qed
  show ?thesis using s r d sc en u s20 len m9 m12 g9 g12 by blast
qed

section \<open>Deferred removal\<close>

lemma thenR_Inr:
  assumes "thenR m f = Inr y"
  obtains x where "m = Inr x" and "f x = Inr y"
  using assms by (cases m) simp_all

lemma on_collision_space:
  assumes "on_collision e other t = Inr t'"
  shows "space t' = space t \<and> entities t' = entities t \<and> all_sprites t' = all_sprites t"
  using assms
  by (auto simp: on_collision_def emit_def Let_def split: option.splits if_splits)

lemma bouncer_interaction_begin_space:
  assumes "bouncer_interaction_begin arb t = Inr r"
  shows "space (snd r) = space t \<and> entities (snd r) = entities t
     \<and> all_sprites (snd r) = all_sprites t"
proof -
  define bs where "bs = (if collision_type (shape_heap t (fst arb)) \<noteq> COLLISION_TYPE_BOUNCER
      then (snd arb, fst arb) else (fst arb, snd arb))"
  have eq: "bouncer_interaction_begin arb t =
      (case parent_sprite (shape_heap t (fst bs)) of
           Some e \<Rightarrow>
             if cls (entity_heap t e) = BouncerEntity then
               thenR (on_collision e (snd bs) t) (\<lambda>s'. Inr (True, s'))
             else Inr (True, t)
         | None \<Rightarrow> Inr (True, t))"
    unfolding bouncer_interaction_begin_def bs_def Let_def by (simp add: split_beta)
  show ?thesis
  proof (cases "parent_sprite (shape_heap t (fst bs))")
    case None
    then show ?thesis using assms unfolding eq by auto
  next
    case (Some e)
    show ?thesis
    proof (cases "cls (entity_heap t e) = BouncerEntity")
      case False
      then show ?thesis using assms unfolding eq Some by auto
    next
      case True
      then have "thenR (on_collision e (snd bs) t) (\<lambda>s'. Inr (True, s')) = Inr r"
        using assms unfolding eq Some by simp
      then obtain t' where "on_collision e (snd bs) t = Inr t'" and "r = (True, t')"
        by (auto elim: thenR_Inr)
      then show ?thesis using on_collision_space by simp
    qed
  qed
qed

lemma player_collect_coin_begin_space:
  assumes "player_collect_coin_begin arb t = Inr r"
  shows "space (snd r) = space t \<and> entities (snd r) = entities t
     \<and> all_sprites (snd r) = all_sprites t"
  using assms
  by (auto simp: player_collect_coin_begin_eq on_collected_def split: option.splits)

lemma collision_begin_space:
  assumes "collision_begin arb t = Inr t'"
  shows "space t' = space t \<and> entities t' = entities t \<and> all_sprites t' = all_sprites t"
proof -
  let ?ta = "collision_type (shape_heap t (fst arb))"
  let ?tb = "collision_type (shape_heap t (snd arb))"
  consider (pc) "?ta = COLLISION_TYPE_PLAYER \<and> ?tb = COLLISION_TYPE_COIN"
    | (cp) "\<not> (?ta = COLLISION_TYPE_PLAYER \<and> ?tb = COLLISION_TYPE_COIN)"
           "?ta = COLLISION_TYPE_COIN \<and> ?tb = COLLISION_TYPE_PLAYER"
    | (wild) "\<not> (?ta = COLLISION_TYPE_PLAYER \<and> ?tb = COLLISION_TYPE_COIN)"
           "\<not> (?ta = COLLISION_TYPE_COIN \<and> ?tb = COLLISION_TYPE_PLAYER)"
    by blast
  then show ?thesis
  proof cases
    case pc
    then have "thenR (player_collect_coin_begin arb t) (\<lambda>r. Inr (snd r)) = Inr t'"
      using assms by (simp add: collision_begin_def Let_def)
    then obtain r where "player_collect_coin_begin arb t = Inr r" and "snd r = t'"
      by (auto elim: thenR_Inr)
    then show ?thesis using player_collect_coin_begin_space by blast
  next
    case cp
    then have "thenR (player_collect_coin_begin (snd arb, fst arb) t) (\<lambda>r. Inr (snd r)) = Inr t'"
      using assms by (simp add: collision_begin_def Let_def)
    then obtain r where "player_collect_coin_begin (snd arb, fst arb) t = Inr r" and "snd r = t'"
      by (auto elim: thenR_Inr)
    then show ?thesis using player_collect_coin_begin_space by blast
  next
    case wild
    have cb: "collision_begin arb t =
        thenR (if ?ta = COLLISION_TYPE_BOUNCER
               then thenR (bouncer_interaction_begin arb t) (\<lambda>r. Inr (snd r))
               else Inr t) (\<lambda>s1.
        if ?tb = COLLISION_TYPE_BOUNCER
        then thenR (bouncer_interaction_begin (snd arb, fst arb) s1) (\<lambda>r. Inr (snd r))
        else Inr s1)"
      unfolding collision_begin_def Let_def by (simp only: wild if_False)
    obtain s1 where 1: "(if ?ta = COLLISION_TYPE_BOUNCER
               then thenR (bouncer_interaction_begin arb t) (\<lambda>r. Inr (snd r))
               else Inr t) = Inr s1"
      and 2: "(if ?tb = COLLISION_TYPE_BOUNCER
        then thenR (bouncer_interaction_begin (snd arb, fst arb) s1) (\<lambda>r. Inr (snd r))
        else Inr s1) = Inr t'"
      using assms unfolding cb by (auto elim: thenR_Inr)
    have a: "space s1 = space t \<and> entities s1 = entities t \<and> all_sprites s1 = all_sprites t"
    proof (cases "?ta = COLLISION_TYPE_BOUNCER")
      case True
      then obtain r where "bouncer_interaction_begin arb t = Inr r" and "snd r = s1"
        using 1 by (auto elim: thenR_Inr)
      then show ?thesis using bouncer_interaction_begin_space by blast
    next
      case False
      then show ?thesis using 1 by simp
    qed
    have b: "space t' = space s1 \<and> entities t' = entities s1 \<and> all_sprites t' = all_sprites s1"
    proof (cases "?tb = COLLISION_TYPE_BOUNCER")
      case True
      then obtain r where "bouncer_interaction_begin (snd arb, fst arb) s1 = Inr r"
        and "snd r = t'"
        using 2 by (auto elim: thenR_Inr)
      then show ?thesis using bouncer_interaction_begin_space by blast
    next
      case False
      then show ?thesis using 2 by simp
    qed
    show ?thesis using a b by simp
  qed
qed


lemma for_each_collision_begin_space:
  assumes "for_each collision_begin bs t = Inr t'"
  shows "space t' = space t \<and> entities t' = entities t \<and> all_sprites t' = all_sprites t"
  using assms
proof (induction bs arbitrary: t)
  case Nil
  then show ?case by simp
next
  case (Cons arb bs)
  from Cons.prems obtain t1 where 1: "collision_begin arb t = Inr t1"
    and 2: "for_each collision_begin bs t1 = Inr t'"
    by (auto elim: thenR_Inr)
  show ?case using collision_begin_space [OF 1] Cons.IH [OF 2] by simp
qed

lemma space_step_space:
  assumes "space_step dt out s = Inr s1"
  shows "space s1 = space s \<and> entities s1 = entities s \<and> all_sprites s1 = all_sprites s"
  using for_each_collision_begin_space [OF assms [unfolded space_step_def]]
  by (simp add: integrate_def emit_def)

lemma Entity_update_marked:
  "marked_for_removal (entity_heap t e) \<Longrightarrow> Entity_update e t = kill_entity e t"
  by (simp add: Entity_update_def Let_def)

text \<open>
  C5. The begin-contact callbacks never touch the space, the registry or the sprite
  group: whatever the pair and the state a callback is called with, and so over a whole
  physics step, the bodies and shapes of the space, the registry and the live sprites
  are unchanged (a callback only sets the flag, adds to the score or applies an
  impulse). \<open>Entity.update\<close> tests the flag first: on a marked entity it is exactly
  \<open>kill\<close>, with no position sync. In a reachable state no registered entity is
  marked; a tick from it succeeds and leads to a reachable state where again none is,
  and every entity that this tick has marked is, at the end of the same tick, out of the
  registry and of the sprite group, its body and shape out of the space, it is not drawn
  by the render of this tick and its body receives no steering force in it.
\<close>

theorem removal_is_deferred:
  assumes r: "reachable s" and d: "deliverable s (Tick out)"
  shows "(\<forall>arb t t'. collision_begin arb t = Inr t' \<longrightarrow>
            space t' = space t \<and> entities t' = entities t \<and> all_sprites t' = all_sprites t)
     \<and> (\<forall>s1. space_step TIME_STEP out s = Inr s1 \<longrightarrow>
            space s1 = space s \<and> entities s1 = entities s \<and> all_sprites s1 = all_sprites s)
     \<and> (\<forall>e t. marked_for_removal (entity_heap t e) \<longrightarrow> Entity_update e t = kill_entity e t)
     \<and> (\<forall>e\<in>set (entities s). \<not> marked_for_removal (entity_heap s e))
     \<and> (\<exists>s'. update_simulation out s = Inr s' \<and> reachable s'
          \<and> (\<forall>e\<in>set (entities s'). \<not> marked_for_removal (entity_heap s' e))
          \<and> (\<forall>e\<in>set (entities s). marked_for_removal (entity_heap s' e) \<longrightarrow>
                e \<notin> set (entities s') \<and> e \<notin> all_sprites s'
              \<and> e_body (entity_heap s e) \<notin> bodies (space s')
              \<and> e_shape (entity_heap s e) \<notin> shapes (space s')
              \<and> Draw e \<notin> set (drop (length (trace s)) (trace s'))
              \<and> (\<forall>f pt. ApplyForceAtLocalPoint (e_body (entity_heap s e)) f pt
                    \<notin> set (drop (length (trace s)) (trace s')))))"
proof -
  note w = reachable_wf [OF r]
  note m = wf_wf_mid [OF w]
  obtain H cam where u: "update_simulation out s = Inr (ticked s out H cam (steering_calls s))"
    and wt: "wf_state (ticked s out H cam (steering_calls s))" and cam: "cam_ok cam"
    and H: "list_all is_impulse H"
    using update_simulation_eq [OF w d] by blast
  define s' where "s' = ticked s out H cam (steering_calls s)"
  define es where "es = collected s (begins out)"
  note f = ticked_facts [OF w cam, of out H "steering_calls s", folded s'_def es_def]
  have rs': "reachable s'" using reachable.step [OF r d] u by (simp add: s'_def)
  have un': "\<forall>e\<in>set (entities s'). \<not> marked_for_removal (entity_heap s' e)"
    using wf_unmarked [OF wt] by (simp add: s'_def)
  have un: "\<forall>e\<in>set (entities s). \<not> marked_for_removal (entity_heap s e)"
    using wf_unmarked [OF w] by simp
  have new: "drop (length (trace s)) (trace s') = Step TIME_STEP # H @ HandleKeyboardInput
      # steering_calls s @ map Update (entities s) @ ClearSurface # map Draw (entities s')
      @ [UpdateCanvas]"
    by (simp add: f(1))
  have nH: "x \<in> set H \<Longrightarrow> is_impulse x" for x using H by (simp add: list_all_iff)
  have main: "e \<notin> set (entities s') \<and> e \<notin> all_sprites s'
              \<and> e_body (entity_heap s e) \<notin> bodies (space s')
              \<and> e_shape (entity_heap s e) \<notin> shapes (space s')
              \<and> Draw e \<notin> set (drop (length (trace s)) (trace s'))
              \<and> (\<forall>f pt. ApplyForceAtLocalPoint (e_body (entity_heap s e)) f pt
                    \<notin> set (drop (length (trace s)) (trace s')))"
    if e: "e \<in> set (entities s)" and mk: "marked_for_removal (entity_heap s' e)" for e
  proof -
    have ees: "e \<in> set es" using mk f(4) [of e] wf_unmarked [OF w e] by simp
    have coin: "cls (entity_heap s e) = CoinEntity"
      using ees collected_coin unfolding es_def by blast
    have nin: "e \<notin> set (entities s')" using ees by (simp add: f(2))
    have nsp: "e \<notin> all_sprites s'" using nin f(7) by simp
    have nb: "e_body (entity_heap s e) \<notin> bodies (space s')" using f(5) e ees by simp
    have nsh: "e_shape (entity_heap s e) \<notin> shapes (space s')" using f(6) e ees by simp
    have st: "Draw e \<notin> set (steering_calls s)"
      using steering_calls_cases [of s] by auto
    have nd: "Draw e \<notin> set (drop (length (trace s)) (trace s'))"
      unfolding new using nin st nH [of "Draw e"] by auto
    have nf: "ApplyForceAtLocalPoint (e_body (entity_heap s e)) fo pt
        \<notin> set (drop (length (trace s)) (trace s'))" for fo pt
    proof -
      have a: "ApplyForceAtLocalPoint (e_body (entity_heap s e)) fo pt \<notin> set (steering_calls s)"
      proof
        assume in_F: "ApplyForceAtLocalPoint (e_body (entity_heap s e)) fo pt
            \<in> set (steering_calls s)"
        then obtain p fx fy where p: "controllable_object s = Some p"
          and F: "steering_calls s
              = [ApplyForceAtLocalPoint (e_body (entity_heap s p)) (fx, fy) (0, 0)]"
          using steering_calls_cases [of s] by auto
        have pin: "p \<in> set (entities s)" and pk: "cls (entity_heap s p) = ControllableEntity"
          using wf_mid_controllable [OF m p] by simp_all
        have "e_body (entity_heap s e) = e_body (entity_heap s p)" using in_F F by simp
        then have "e = p" using wf_mid_inj [OF m] e pin by (auto dest: inj_onD)
        then show False using coin pk by simp
      qed
      show ?thesis unfolding new using a nH [of "ApplyForceAtLocalPoint (e_body (entity_heap s e)) fo pt"]
        by auto
    qed
    show ?thesis using nin nsp nb nsh nd nf by blast
  qed
  have tick: "\<exists>s'. update_simulation out s = Inr s' \<and> reachable s'
          \<and> (\<forall>e\<in>set (entities s'). \<not> marked_for_removal (entity_heap s' e))
          \<and> (\<forall>e\<in>set (entities s). marked_for_removal (entity_heap s' e) \<longrightarrow>
                e \<notin> set (entities s') \<and> e \<notin> all_sprites s'
              \<and> e_body (entity_heap s e) \<notin> bodies (space s')
              \<and> e_shape (entity_heap s e) \<notin> shapes (space s')
              \<and> Draw e \<notin> set (drop (length (trace s)) (trace s'))
              \<and> (\<forall>f pt. ApplyForceAtLocalPoint (e_body (entity_heap s e)) f pt
                    \<notin> set (drop (length (trace s)) (trace s'))))"
    using u [folded s'_def] rs' un' main by blast
  show ?thesis
    using collision_begin_space space_step_space Entity_update_marked un tick by blast
qed


lemma player_coin_sprites:
  "\<exists>s. run [AddPlayerButton, AddObjectButton ''coin''] = Inr s
     \<and> shapes (space s) = {1, 2, 3, 4, 8, 11}
     \<and> collision_type (shape_heap s 8) = COLLISION_TYPE_PLAYER
     \<and> collision_type (shape_heap s 11) = COLLISION_TYPE_COIN
     \<and> parent_sprite (shape_heap s 11) = Some 9 \<and> cls (entity_heap s 9) = CoinEntity
     \<and> entities s = [6, 9]"
  by (simp add: run_def SimulationApp_init_def add_boundaries_def new_app_def Let_def space_ops
      SCREEN_WIDTH_def SCREEN_HEIGHT_def add_player_gui_def ControllableEntity_init_def
      Entity_init_def screen_to_world_def Camera_def view_centre_def
      add_object_at_mouse_center_def add_object_at_pos_def CoinEntity_init_def
      eval_nat_numeral insert_commute)

theorem removal_is_deferred_witness:
  "\<exists>s s'. run [AddPlayerButton, AddObjectButton ''coin''] = Inr s \<and> reachable s
     \<and> deliverable s (Tick \<lparr>poses = (\<lambda>_. None), begins = [(8, 11)]\<rparr>)
     \<and> update_simulation \<lparr>poses = (\<lambda>_. None), begins = [(8, 11)]\<rparr> s = Inr s'
     \<and> 9 \<in> set (entities s) \<and> marked_for_removal (entity_heap s' 9)
     \<and> 9 \<notin> set (entities s') \<and> 9 \<notin> all_sprites s'
     \<and> e_body (entity_heap s 9) \<notin> bodies (space s')
     \<and> e_shape (entity_heap s 9) \<notin> shapes (space s')
     \<and> Draw 9 \<notin> set (drop (length (trace s)) (trace s'))"
proof -
  let ?out = "\<lparr>poses = (\<lambda>_. None), begins = [(8::nat, 11::nat)]\<rparr> :: step_outcome"
  obtain s where s: "run [AddPlayerButton, AddObjectButton ''coin''] = Inr s"
    and sh: "shapes (space s) = {1, 2, 3, 4, 8, 11}"
    and tp: "collision_type (shape_heap s 8) = COLLISION_TYPE_PLAYER"
    and tc: "collision_type (shape_heap s 11) = COLLISION_TYPE_COIN"
    and par: "parent_sprite (shape_heap s 11) = Some 9" and k: "cls (entity_heap s 9) = CoinEntity"
    and en: "entities s = [6, 9]"
    using player_coin_sprites by blast
  have "list_all (\<lambda>ev. \<not> is_tick ev) [AddPlayerButton, AddObjectButton ''coin'']" by simp
  then obtain s0 where "run [AddPlayerButton, AddObjectButton ''coin''] = Inr s0" "reachable s0"
    using run_reachable by blast
  then have r: "reachable s" using s by simp
  have d: "deliverable s (Tick ?out)" by (simp add: sh)
  have in9: "9 \<in> set (entities s)" by (simp add: en)
  have es: "collected s (begins ?out) = [9]"
    by (simp add: collected_def map_filter_simps collected_by_def coin_sprite_def tp tc par k)
  note w = reachable_wf [OF r]
  obtain H cam where u: "update_simulation ?out s = Inr (ticked s ?out H cam (steering_calls s))"
    and cam: "cam_ok cam"
    using update_simulation_eq [OF w d] by blast
  have mk: "marked_for_removal (entity_heap (ticked s ?out H cam (steering_calls s)) 9)"
    using ticked_facts(4) [OF w cam, of ?out H "steering_calls s" 9] es by simp
  obtain s' where u': "update_simulation ?out s = Inr s'"
    and all: "\<forall>e\<in>set (entities s). marked_for_removal (entity_heap s' e) \<longrightarrow>
                e \<notin> set (entities s') \<and> e \<notin> all_sprites s'
              \<and> e_body (entity_heap s e) \<notin> bodies (space s')
              \<and> e_shape (entity_heap s e) \<notin> shapes (space s')
              \<and> Draw e \<notin> set (drop (length (trace s)) (trace s'))
              \<and> (\<forall>f pt. ApplyForceAtLocalPoint (e_body (entity_heap s e)) f pt
                    \<notin> set (drop (length (trace s)) (trace s')))"
    using removal_is_deferred [OF r d] by blast
  have "s' = ticked s ?out H cam (steering_calls s)" using u u' by simp
  then have mk': "marked_for_removal (entity_heap s' 9)" using mk by simp
  show ?thesis using s r d u' in9 mk' all [rule_format, OF in9 mk'] by blast
qed

section \<open>The bouncer's impulse\<close>

text \<open>
  The call the begin callback of BOUNCER makes. When it runs for the shape b of a
  bouncer and another shape whose body is ob (b first, or second when the other shape is
  not of type BOUNCER), it returns accept, and: if ob is DYNAMIC, it calls
  \<open>apply_impulse_at_local_point\<close> on ob once, at the local point (0, 0), with the
  vector \<open>normalized d * bounce_force * TIME_STEP\<close>, where d is the position of ob
  minus the position of the bouncer's body, both in world coordinates; if ob is not
  DYNAMIC the state is unchanged. When d is not the zero vector, \<open>normalized d\<close> is
  the unit vector d / |d|. When the other shape is not of type BOUNCER, this is the whole
  effect of the dispatch of the pair by the physics step.
\<close>

lemma bouncer_call:
  assumes tb: "collision_type (shape_heap t b) = COLLISION_TYPE_BOUNCER"
    and par: "parent_sprite (shape_heap t b) = Some e"
    and k: "cls (entity_heap t e) = BouncerEntity"
    and ob: "shape_body (shape_heap t other) = Some ob"
    and arb: "arb = (b, other)
       \<or> (arb = (other, b) \<and> collision_type (shape_heap t other) \<noteq> COLLISION_TYPE_BOUNCER)"
  shows "(let d = vsub (position (body_heap t ob))
                       (position (body_heap t (e_body (entity_heap t e))))
          in bouncer_interaction_begin arb t
               = Inr (True,
                   if body_type (body_heap t ob) = DYNAMIC
                   then emit (ApplyImpulseAtLocalPoint ob
                          (vscale (vscale (normalized d) bounce_force) TIME_STEP) (0, 0)) t
                   else t)
             \<and> vscale (vscale (normalized d) bounce_force) TIME_STEP
                 = vscale (normalized d) (bounce_force * TIME_STEP)
             \<and> (d \<noteq> (0, 0) \<longrightarrow> vlength (normalized d) = 1
                   \<and> normalized d = vscale d (1 / vlength d) \<and> 0 < vlength d)
             \<and> (collision_type (shape_heap t other) \<noteq> COLLISION_TYPE_BOUNCER \<longrightarrow>
                  collision_begin arb t
                    = Inr (if body_type (body_heap t ob) = DYNAMIC
                           then emit (ApplyImpulseAtLocalPoint ob
                                  (vscale (vscale (normalized d) bounce_force) TIME_STEP) (0, 0)) t
                           else t)))"
proof -
  define d where "d = vsub (position (body_heap t ob))
      (position (body_heap t (e_body (entity_heap t e))))"
  define t' where "t' = (if body_type (body_heap t ob) = DYNAMIC
      then emit (ApplyImpulseAtLocalPoint ob
             (vscale (vscale (normalized d) bounce_force) TIME_STEP) (0, 0)) t
      else t)"
  have oc: "on_collision e other t = Inr t'"
    by (simp add: on_collision_def ob Let_def d_def t'_def)
  have h: "bouncer_interaction_begin arb t = Inr (True, t')"
    using arb
  proof
    assume "arb = (b, other)"
    then show ?thesis by (simp add: bouncer_interaction_begin_def tb par k oc)
  next
    assume "arb = (other, b) \<and> collision_type (shape_heap t other) \<noteq> COLLISION_TYPE_BOUNCER"
    then show ?thesis by (simp add: bouncer_interaction_begin_def par k oc)
  qed
  have sc: "vscale (vscale (normalized d) bounce_force) TIME_STEP
      = vscale (normalized d) (bounce_force * TIME_STEP)"
    by (simp add: vscale_def)
  have u: "d \<noteq> (0, 0) \<longrightarrow> vlength (normalized d) = 1
      \<and> normalized d = vscale d (1 / vlength d) \<and> 0 < vlength d"
    using vlength_normalized [of d] by blast
  have ne: "COLLISION_TYPE_BOUNCER \<noteq> COLLISION_TYPE_PLAYER"
    "COLLISION_TYPE_BOUNCER \<noteq> COLLISION_TYPE_COIN"
    by (simp_all add: COLLISION_TYPE_BOUNCER_def COLLISION_TYPE_PLAYER_def COLLISION_TYPE_COIN_def)
  have cb: "collision_begin arb t = Inr t'"
    if no: "collision_type (shape_heap t other) \<noteq> COLLISION_TYPE_BOUNCER"
    using arb
  proof
    assume a: "arb = (b, other)"
    show ?thesis
      using no ne h [unfolded a] by (simp add: collision_begin_def Let_def a tb)
  next
    assume a: "arb = (other, b) \<and> collision_type (shape_heap t other) \<noteq> COLLISION_TYPE_BOUNCER"
    have "bouncer_interaction_begin (b, other) t = Inr (True, t')"
      by (simp add: bouncer_interaction_begin_def tb par k oc)
    then show ?thesis
      using no ne by (simp add: collision_begin_def Let_def a tb)
  qed
  show ?thesis
    unfolding Let_def d_def [symmetric] t'_def [symmetric] using h sc u cb by blast
qed


text \<open>
  A bouncer at the view centre (500, 300) and a ball at (503, 304): the direction is
  (3/5, 4/5) and the impulse (5000, 20000/3). A boundary segment, on the static body,
  gets none.
\<close>

lemma bouncer_ball_state:
  "\<exists>s. run [AddObjectButton ''bouncer'', RightClick (x, y)] = Inr s
     \<and> shapes (space s) = {1, 2, 3, 4, 8, 11}
     \<and> collision_type (shape_heap s 8) = COLLISION_TYPE_BOUNCER
     \<and> collision_type (shape_heap s 11) = COLLISION_TYPE_BALL
     \<and> parent_sprite (shape_heap s 8) = Some 6 \<and> cls (entity_heap s 6) = BouncerEntity
     \<and> e_body (entity_heap s 6) = 7 \<and> position (body_heap s 7) = (500, 300)
     \<and> shape_body (shape_heap s 11) = Some 10 \<and> body_type (body_heap s 10) = DYNAMIC
     \<and> position (body_heap s 10) = (real_of_int x, real_of_int y)
     \<and> shape_body (shape_heap s 1) = Some 0 \<and> body_type (body_heap s 0) = STATIC
     \<and> collision_type (shape_heap s 1) = 0"
  by (simp add: run_def SimulationApp_init_def add_boundaries_def new_app_def Let_def space_ops
      SCREEN_WIDTH_def SCREEN_HEIGHT_def on_right_click_def add_object_at_click_def
      add_object_at_mouse_center_def view_centre_def BouncerEntity_init_def
      add_object_at_pos_def Entity_init_def screen_to_world_def Camera_def as_screen_pos_def
      eval_nat_numeral insert_commute)

lemma vlength_3_4: "vlength (3, 4) = 5"
proof -
  have "sqrt 25 = 5" by (rule real_sqrt_unique) simp_all
  then show ?thesis by (simp add: vlength_def)
qed

lemma bouncer_call_example:
  "\<exists>s. run [AddObjectButton ''bouncer'', RightClick (503, 304)] = Inr s
     \<and> collision_type (shape_heap s 8) = COLLISION_TYPE_BOUNCER
     \<and> position (body_heap s 7) = (500, 300) \<and> position (body_heap s 10) = (503, 304)
     \<and> body_type (body_heap s 10) = DYNAMIC \<and> body_type (body_heap s 0) \<noteq> DYNAMIC
     \<and> bouncer_interaction_begin (8, 11) s
          = Inr (True, emit (ApplyImpulseAtLocalPoint 10 (5000, 20000 / 3) (0, 0)) s)
     \<and> collision_begin (8, 11) s
          = Inr (emit (ApplyImpulseAtLocalPoint 10 (5000, 20000 / 3) (0, 0)) s)
     \<and> vlength (normalized (3, 4)) = 1
     \<and> bouncer_interaction_begin (1, 8) s = Inr (True, s)
     \<and> collision_begin (1, 8) s = Inr s"
proof -
  obtain s where s: "run [AddObjectButton ''bouncer'', RightClick (503, 304)] = Inr s"
    and tb: "collision_type (shape_heap s 8) = COLLISION_TYPE_BOUNCER"
    and to: "collision_type (shape_heap s 11) = COLLISION_TYPE_BALL"
    and par: "parent_sprite (shape_heap s 8) = Some 6" and k: "cls (entity_heap s 6) = BouncerEntity"
    and eb: "e_body (entity_heap s 6) = 7" and pb: "position (body_heap s 7) = (500, 300)"
    and ob: "shape_body (shape_heap s 11) = Some 10" and dyn: "body_type (body_heap s 10) = DYNAMIC"
    and po: "position (body_heap s 10) = (503, 304)"
    and wb: "shape_body (shape_heap s 1) = Some 0" and st: "body_type (body_heap s 0) = STATIC"
    and tw: "collision_type (shape_heap s 1) = 0"
    using bouncer_ball_state [of 503 304] by auto
  have no: "collision_type (shape_heap s 11) \<noteq> COLLISION_TYPE_BOUNCER"
    by (simp add: to COLLISION_TYPE_BALL_def COLLISION_TYPE_BOUNCER_def)
  have nw: "collision_type (shape_heap s 1) \<noteq> COLLISION_TYPE_BOUNCER"
    using tw by (simp add: COLLISION_TYPE_BOUNCER_def)
  have d: "vsub (position (body_heap s 10)) (position (body_heap s (e_body (entity_heap s 6))))
      = (3, 4)"
    by (simp add: vsub_def eb pb po)
  have n: "normalized (3, 4) = (3 / 5, 4 / 5)"
    by (simp add: normalized_def Let_def vlength_3_4)
  have imp: "vscale (vscale (normalized (3, 4)) bounce_force) TIME_STEP = (5000, 20000 / 3)"
    by (simp add: n vscale_def bounce_force_def TIME_STEP_def FPS_def)
  have a: "bouncer_interaction_begin (8, 11) s
        = Inr (True, emit (ApplyImpulseAtLocalPoint 10 (5000, 20000 / 3) (0, 0)) s)
      \<and> collision_begin (8, 11) s
        = Inr (emit (ApplyImpulseAtLocalPoint 10 (5000, 20000 / 3) (0, 0)) s)
      \<and> vlength (normalized (3, 4)) = 1"
  proof -
    note th = bouncer_call [of s 8 6 11 10 "(8, 11)", OF tb par k ob disjI1 [OF refl],
        unfolded Let_def d]
    have nz: "(3::real, 4::real) \<noteq> (0, 0)" by simp
    from th nz have u: "vlength (normalized (3, 4)) = 1" by blast
    from th have "bouncer_interaction_begin (8, 11) s
        = Inr (True,
            if body_type (body_heap s 10) = DYNAMIC
            then emit (ApplyImpulseAtLocalPoint 10
                   (vscale (vscale (normalized (3, 4)) bounce_force) TIME_STEP) (0, 0)) s
            else s)" by blast
    then have h: "bouncer_interaction_begin (8, 11) s
        = Inr (True, emit (ApplyImpulseAtLocalPoint 10 (5000, 20000 / 3) (0, 0)) s)"
      by (simp add: dyn imp)
    from th no have "collision_begin (8, 11) s
        = Inr (if body_type (body_heap s 10) = DYNAMIC
            then emit (ApplyImpulseAtLocalPoint 10
                   (vscale (vscale (normalized (3, 4)) bounce_force) TIME_STEP) (0, 0)) s
            else s)" by blast
    then have c: "collision_begin (8, 11) s
        = Inr (emit (ApplyImpulseAtLocalPoint 10 (5000, 20000 / 3) (0, 0)) s)"
      by (simp add: dyn imp)
    show ?thesis using h c u by blast
  qed
  have b: "bouncer_interaction_begin (1, 8) s = Inr (True, s) \<and> collision_begin (1, 8) s = Inr s"
  proof -
    have arb: "(1::nat, 8::nat) = (8, 1) \<or> ((1::nat, 8::nat) = (1, 8)
        \<and> collision_type (shape_heap s 1) \<noteq> COLLISION_TYPE_BOUNCER)"
      using nw by simp
    note th = bouncer_call [of s 8 6 1 0 "(1, 8)", OF tb par k wb arb,
        unfolded Let_def]
    have nd: "body_type (body_heap s 0) \<noteq> DYNAMIC" by (simp add: st)
    from th have "bouncer_interaction_begin (1, 8) s
        = Inr (True,
            if body_type (body_heap s 0) = DYNAMIC
            then emit (ApplyImpulseAtLocalPoint 0
                   (vscale (vscale (normalized (vsub (position (body_heap s 0))
                       (position (body_heap s (e_body (entity_heap s 6)))))) bounce_force)
                      TIME_STEP) (0, 0)) s
            else s)" by blast
    then have h: "bouncer_interaction_begin (1, 8) s = Inr (True, s)"
      by (simp add: nd)
    from th nw have "collision_begin (1, 8) s
        = Inr (if body_type (body_heap s 0) = DYNAMIC
            then emit (ApplyImpulseAtLocalPoint 0
                   (vscale (vscale (normalized (vsub (position (body_heap s 0))
                       (position (body_heap s (e_body (entity_heap s 6)))))) bounce_force)
                      TIME_STEP) (0, 0)) s
            else s)" by blast
    then have c: "collision_begin (1, 8) s = Inr s"
      by (simp add: nd)
    show ?thesis using h c by blast
  qed
  have nd: "body_type (body_heap s 0) \<noteq> DYNAMIC" by (simp add: st)
  show ?thesis using s tb pb po dyn nd a b by blast
qed

text \<open>
  When the two centres coincide (a bouncer added at the view centre and a ball by a
  right click on the same point), \<open>normalized\<close> of the zero vector is the zero
  vector and the call is made with the vector (0, 0).
\<close>

lemma bouncer_call_coincident:
  "\<exists>s. run [AddObjectButton ''bouncer'', RightClick (500, 300)] = Inr s \<and> reachable s
     \<and> deliverable s (Tick \<lparr>poses = (\<lambda>_. None), begins = [(8, 11)]\<rparr>)
     \<and> collision_type (shape_heap s 8) = COLLISION_TYPE_BOUNCER
     \<and> shape_body (shape_heap s 11) = Some 10 \<and> body_type (body_heap s 10) = DYNAMIC
     \<and> bouncer_interaction_begin (8, 11) s
          = Inr (True, emit (ApplyImpulseAtLocalPoint 10 (0, 0) (0, 0)) s)
     \<and> space_step TIME_STEP \<lparr>poses = (\<lambda>_. None), begins = [(8, 11)]\<rparr> s
          = Inr (emit (ApplyImpulseAtLocalPoint 10 (0, 0) (0, 0)) (emit (Step TIME_STEP) s))
     \<and> vlength (0, 0) \<noteq> bounce_force * TIME_STEP"
proof -
  obtain s where s: "run [AddObjectButton ''bouncer'', RightClick (500, 300)] = Inr s"
    and sh: "shapes (space s) = {1, 2, 3, 4, 8, 11}"
    and tb: "collision_type (shape_heap s 8) = COLLISION_TYPE_BOUNCER"
    and to: "collision_type (shape_heap s 11) = COLLISION_TYPE_BALL"
    and par: "parent_sprite (shape_heap s 8) = Some 6" and k: "cls (entity_heap s 6) = BouncerEntity"
    and eb: "e_body (entity_heap s 6) = 7" and pb: "position (body_heap s 7) = (500, 300)"
    and ob: "shape_body (shape_heap s 11) = Some 10" and dyn: "body_type (body_heap s 10) = DYNAMIC"
    and po: "position (body_heap s 10) = (500, 300)"
    using bouncer_ball_state [of 500 300] by auto
  have "list_all (\<lambda>ev. \<not> is_tick ev) [AddObjectButton ''bouncer'', RightClick (500, 300)]"
    by simp
  then obtain s0 where "run [AddObjectButton ''bouncer'', RightClick (500, 300)] = Inr s0"
    and "reachable s0"
    using run_reachable by blast
  then have r: "reachable s" using s by simp
  have dl: "deliverable s (Tick \<lparr>poses = (\<lambda>_. None), begins = [(8, 11)]\<rparr>)"
    by (simp add: sh)
  have z: "vscale (vscale (normalized (0, 0)) bounce_force) TIME_STEP = (0, 0)"
    by (simp add: normalized_def vlength_def vscale_def)
  have oc: "on_collision 6 11 s = Inr (emit (ApplyImpulseAtLocalPoint 10 (0, 0) (0, 0)) s)"
    by (simp add: on_collision_def ob dyn Let_def vsub_def eb pb po z)
  have h: "bouncer_interaction_begin (8, 11) s
      = Inr (True, emit (ApplyImpulseAtLocalPoint 10 (0, 0) (0, 0)) s)"
    by (simp add: bouncer_interaction_begin_def tb par k oc)
  define t where "t = emit (Step TIME_STEP) s"
  have t: "shape_heap t = shape_heap s" "entity_heap t = entity_heap s" "body_heap t = body_heap s"
    by (simp_all add: t_def emit_def)
  have oc': "on_collision 6 11 t = Inr (emit (ApplyImpulseAtLocalPoint 10 (0, 0) (0, 0)) t)"
    by (simp add: on_collision_def t ob dyn Let_def vsub_def eb pb po z)
  have h': "bouncer_interaction_begin (8, 11) t
      = Inr (True, emit (ApplyImpulseAtLocalPoint 10 (0, 0) (0, 0)) t)"
    by (simp add: bouncer_interaction_begin_def t tb par k oc')
  have ne: "COLLISION_TYPE_BOUNCER \<noteq> COLLISION_TYPE_PLAYER"
    "COLLISION_TYPE_BOUNCER \<noteq> COLLISION_TYPE_COIN"
    "COLLISION_TYPE_BALL \<noteq> COLLISION_TYPE_BOUNCER"
    by (simp_all add: COLLISION_TYPE_BOUNCER_def COLLISION_TYPE_PLAYER_def
        COLLISION_TYPE_COIN_def COLLISION_TYPE_BALL_def)
  have cb: "collision_begin (8, 11) t = Inr (emit (ApplyImpulseAtLocalPoint 10 (0, 0) (0, 0)) t)"
    using ne by (simp add: collision_begin_def Let_def t tb to h')
  have ig: "integrate \<lparr>poses = (\<lambda>_. None), begins = [(8, 11)]\<rparr> t = t"
    by (simp add: integrate_def cong: if_cong)
  have st: "space_step TIME_STEP \<lparr>poses = (\<lambda>_. None), begins = [(8, 11)]\<rparr> s
      = Inr (emit (ApplyImpulseAtLocalPoint 10 (0, 0) (0, 0)) (emit (Step TIME_STEP) s))"
    unfolding space_step_def t_def [symmetric] by (simp add: ig cb)
  have v: "vlength (0, 0) \<noteq> bounce_force * TIME_STEP"
    by (simp add: vlength_def bounce_force_def TIME_STEP_def FPS_def)
  show ?thesis using s r dl tb ob dyn h st v by blast
qed

text \<open>
  C4. The claim asks for an impulse equal to the unit vector from the bouncer's centre to
  the other body's centre, scaled by \<open>bounce_force * TIME_STEP\<close>. The code computes
  that vector in world coordinates and passes it to \<open>apply_impulse_at_local_point\<close>,
  which reads it in the coordinates of the body it pushes. A bouncer is at (500, 300) and
  a ball at (503, 304); the ball has turned by half a turn when the two begin contact.
  The vector passed is (5000, 20000/3), which is the unit vector (3/5, 4/5) scaled; the
  impulse that acts on the ball is that vector turned by the ball's angle,
  (-5000, -20000/3): towards the bouncer, not away from it.
\<close>

theorem bouncer_impulse_in_body_frame:
  "map_sum id (\<lambda>s. (filter is_impulse (trace s), body_heap s 7, body_heap s 10))
     (run [AddObjectButton ''bouncer'', RightClick (503, 304),
           Tick \<lparr>poses = (\<lambda>b. if b = 10 then Some ((503, 304), pi) else None), begins = []\<rparr>,
           Tick \<lparr>poses = (\<lambda>_. None), begins = [(8, 11)]\<rparr>])
   = Inr ([ApplyImpulseAtLocalPoint 10 (5000, 20000 / 3) (0, 0)],
          \<lparr>position = (500, 300), angle = 0, body_type = STATIC\<rparr>,
          \<lparr>position = (503, 304), angle = pi, body_type = DYNAMIC\<rparr>)
   \<and> vscale (normalized (vsub (503, 304) (500, 300))) (bounce_force * TIME_STEP)
       = (5000, 20000 / 3)
   \<and> local_to_world_vect \<lparr>position = (503, 304), angle = pi, body_type = DYNAMIC\<rparr>
         (5000, 20000 / 3)
       = (- 5000, - (20000 / 3))"
proof -
  have n: "normalized (3, 4) = (3 / 5, 4 / 5)"
    by (simp add: normalized_def Let_def vlength_3_4)
  have a: "map_sum id (\<lambda>s. (filter is_impulse (trace s), body_heap s 7, body_heap s 10))
     (run [AddObjectButton ''bouncer'', RightClick (503, 304),
           Tick \<lparr>poses = (\<lambda>b. if b = 10 then Some ((503, 304), pi) else None), begins = []\<rparr>,
           Tick \<lparr>poses = (\<lambda>_. None), begins = [(8, 11)]\<rparr>])
   = Inr ([ApplyImpulseAtLocalPoint 10 (5000, 20000 / 3) (0, 0)],
          \<lparr>position = (500, 300), angle = 0, body_type = STATIC\<rparr>,
          \<lparr>position = (503, 304), angle = pi, body_type = DYNAMIC\<rparr>)"
    by (simp add: run_def SimulationApp_init_def add_boundaries_def new_app_def Let_def space_ops
      SCREEN_WIDTH_def SCREEN_HEIGHT_def on_right_click_def add_object_at_click_def
      add_object_at_mouse_center_def view_centre_def BouncerEntity_init_def
      add_object_at_pos_def Entity_init_def screen_to_world_def Camera_def as_screen_pos_def
      update_simulation_def space_step_def integrate_def emit_def collision_begin_def
      bouncer_interaction_begin_def on_collision_def vsub_def n vscale_def bounce_force_def
      handle_keyboard_input_def steer_def update_entity_def Entity_update_def
      render_def Entity_draw_def TIME_STEP_def FPS_def COLLISION_TYPE_PLAYER_def
      COLLISION_TYPE_COIN_def COLLISION_TYPE_BALL_def COLLISION_TYPE_BOUNCER_def
      eval_nat_numeral insert_commute)
  have b: "vscale (normalized (vsub (503, 304) (500, 300))) (bounce_force * TIME_STEP)
       = (5000, 20000 / 3)"
    by (simp add: vsub_def n vscale_def bounce_force_def TIME_STEP_def FPS_def)
  have c: "local_to_world_vect \<lparr>position = (503, 304), angle = pi, body_type = DYNAMIC\<rparr>
         (5000, 20000 / 3) = (- 5000, - (20000 / 3))"
    by (simp add: local_to_world_vect_def)
  show ?thesis using a b c by blast
qed

end
